theory Spec2Isabelle
  imports Main "HOL-Library.Sublist" "HOL-Library.List_Lexorder" "HOL-Library.Char_ord"
begin

section \<open>Strings and characters\<close>

text \<open>
  Python strings are modelled as \<open>string\<close> (lists of 8-bit characters holding the UTF-8
  encoding of the name).  The character classes of the regular expressions and of
  \<open>str.strip\<close>, \<open>str.lower\<close> are modelled on their ASCII members: the model agrees
  with the scripts on every name whose white space, digits and cased letters are ASCII.
\<close>

definition is_space :: "char \<Rightarrow> bool" where
  \<comment> \<open>\<open>\s\<close> and \<open>str.isspace\<close>: TAB, LF, VT, FF, CR, FS, GS, RS, US and the blank.\<close>
  "is_space c = (let n = (of_char c :: nat) in (9 \<le> n \<and> n \<le> 13) \<or> (28 \<le> n \<and> n \<le> 32))"

definition is_digit :: "char \<Rightarrow> bool" where
  \<comment> \<open>\<open>\d\<close> and \<open>[0-9]\<close>.\<close>
  "is_digit c = (let n = (of_char c :: nat) in 48 \<le> n \<and> n \<le> 57)"

definition digit_char :: "nat \<Rightarrow> char" where
  "digit_char d = char_of (48 + d)"

definition digit_val :: "char \<Rightarrow> nat" where
  "digit_val c = of_char c - 48"

text \<open>\<open>str(n)\<close> for a non-negative integer: its decimal digits.\<close>

fun str_nat :: "nat \<Rightarrow> string" where
  "str_nat n = (if n < 10 then [digit_char n] else str_nat (n div 10) @ [digit_char (n mod 10)])"

declare str_nat.simps [simp del]

text \<open>\<open>int(s)\<close> on a string of decimal digits.\<close>

definition int_of_digits :: "string \<Rightarrow> nat" where
  "int_of_digits s = foldl (\<lambda>a c. 10 * a + digit_val c) 0 s"

lemma digit_val_digit_char: "d < 10 \<Longrightarrow> digit_val (digit_char d) = d"
  by (simp add: digit_val_def digit_char_def)

lemma int_of_digits_snoc: "int_of_digits (s @ [c]) = 10 * int_of_digits s + digit_val c"
  by (simp add: int_of_digits_def)

lemma int_of_digits_str_nat: "int_of_digits (str_nat n) = n"
proof (induction n rule: str_nat.induct)
  case (1 n)
  show ?case
  proof (cases "n < 10")
    case True
    then show ?thesis
      by (subst str_nat.simps) (simp add: int_of_digits_def digit_val_digit_char)
  next
    case False
    then show ?thesis
      using 1 by (subst str_nat.simps) (simp add: int_of_digits_snoc digit_val_digit_char)
  qed
qed

lemma inj_str_nat: "inj str_nat"
  by (rule inj_on_inverseI [where g = int_of_digits]) (rule int_of_digits_str_nat)

section \<open>Paths and the file system\<close>

text \<open>
  The file system is a finite table from absolute paths to nodes; its order is the order
  in which the operating system lists entries.  A regular file carries an identifier of
  its content.
\<close>

datatype node = File nat | Dir

type_synonym filesystem = "(string \<times> node) list"

definition os_path_exists :: "filesystem \<Rightarrow> string \<Rightarrow> bool" where
  "os_path_exists fs p = (map_of fs p \<noteq> None)"

text \<open>\<open>str.rfind\<close> of a single character: the last index, or \<open>-1\<close>.\<close>

definition rfind :: "char \<Rightarrow> string \<Rightarrow> int" where
  "rfind c s = (if c \<in> set s then int (length s) - 1 - int (length (takeWhile (\<lambda>x. x \<noteq> c) (rev s))) else - 1)"

text \<open>
  \<open>os.path.splitext\<close>: the extension starts at the last dot of the last component, unless
  that component has only dots before it.
\<close>

definition splitext :: "string \<Rightarrow> string \<times> string" where
  "splitext p =
     (let sepIndex = rfind CHR ''/'' p; dotIndex = rfind CHR ''.'' p
      in if dotIndex > sepIndex \<and>
            list_ex (\<lambda>i. p ! i \<noteq> CHR ''.'') [nat (sepIndex + 1) ..< nat dotIndex]
         then (take (nat dotIndex) p, drop (nat dotIndex) p)
         else (p, []))"

text \<open>The exceptions the scripts can meet, each with the path or message it carries.\<close>

datatype error =
    FileNotFoundError string
  | FileExistsError string
  | IsADirectoryError string
  | NotADirectoryError string
  | OSError string
  | SystemExit string

definition os_path_isdir :: "filesystem \<Rightarrow> string \<Rightarrow> bool" where
  "os_path_isdir fs p = (map_of fs p = Some Dir)"

definition os_path_isfile :: "filesystem \<Rightarrow> string \<Rightarrow> bool" where
  "os_path_isfile fs p = (case map_of fs p of Some (File c) \<Rightarrow> True | _ \<Rightarrow> False)"

text \<open>\<open>str.startswith\<close>, \<open>str.endswith\<close>, \<open>os.path.join\<close> (two arguments),
  \<open>os.path.basename\<close>, \<open>str.strip\<close> and \<open>os.path.dirname\<close> of \<open>posixpath\<close>.\<close>

definition startswith :: "string \<Rightarrow> string \<Rightarrow> bool" where
  "startswith s p = prefix p s"

definition endswith :: "string \<Rightarrow> string \<Rightarrow> bool" where
  "endswith s p = suffix p s"

definition join :: "string \<Rightarrow> string \<Rightarrow> string" where
  "join a b =
     (if startswith b ''/'' then b
      else if a = [] \<or> endswith a ''/'' then a @ b
      else a @ ''/'' @ b)"

definition basename :: "string \<Rightarrow> string" where
  "basename p = drop (nat (rfind CHR ''/'' p + 1)) p"

definition rstrip_chars :: "(char \<Rightarrow> bool) \<Rightarrow> string \<Rightarrow> string" where
  "rstrip_chars P s = rev (dropWhile P (rev s))"

definition lstrip_chars :: "(char \<Rightarrow> bool) \<Rightarrow> string \<Rightarrow> string" where
  "lstrip_chars P s = dropWhile P s"

definition strip_chars :: "(char \<Rightarrow> bool) \<Rightarrow> string \<Rightarrow> string" where
  "strip_chars P s = rstrip_chars P (lstrip_chars P s)"

definition strip :: "string \<Rightarrow> string" where
  "strip s = strip_chars is_space s"

definition dirname :: "string \<Rightarrow> string" where
  "dirname p =
     (let head = take (nat (rfind CHR ''/'' p + 1)) p
      in if head \<noteq> [] \<and> \<not> list_all (\<lambda>c. c = CHR ''/'') head
         then rstrip_chars (\<lambda>c. c = CHR ''/'') head else head)"

text \<open>
  \<open>os.listdir\<close>: the names \<open>n\<close> such that \<open>os.path.join(d, n)\<close> is an entry, in table order.
\<close>

definition child_name :: "string \<Rightarrow> string \<Rightarrow> string option" where
  "child_name d p =
     (let pre = join d ''x'' in
      let pre = butlast pre in
      if prefix pre p \<and> drop (length pre) p \<noteq> [] \<and> CHR ''/'' \<notin> set (drop (length pre) p)
      then Some (drop (length pre) p) else None)"

definition listdir :: "filesystem \<Rightarrow> string \<Rightarrow> string list" where
  "listdir fs d = remdups (List.map_filter (child_name d) (map fst fs))"

definition os_listdir :: "filesystem \<Rightarrow> string \<Rightarrow> error + string list" where
  "os_listdir fs d =
     (case map_of fs d of
        None \<Rightarrow> Inl (FileNotFoundError d)
      | Some (File c) \<Rightarrow> Inl (NotADirectoryError d)
      | Some Dir \<Rightarrow> Inr (listdir fs d))"

lemma rstrip_chars_prefix: "prefix (rstrip_chars P s) s"
proof -
  have "rev s = takeWhile P (rev s) @ dropWhile P (rev s)"
    by simp
  then have "s = rev (dropWhile P (rev s)) @ rev (takeWhile P (rev s))"
    by (metis rev_append rev_rev_ident)
  then show ?thesis
    unfolding rstrip_chars_def by (metis prefixI)
qed

lemma dirname_prefix: "prefix (dirname p) p"
proof -
  have "prefix (take n p) p" for n
    by (rule take_is_prefix)
  moreover have "prefix (rstrip_chars P (take n p)) (take n p)" for n P
    by (rule rstrip_chars_prefix)
  ultimately show ?thesis
    unfolding dirname_def Let_def by (auto intro: prefix_order.trans)
qed

lemma dirname_shorter: "dirname p \<noteq> p \<Longrightarrow> length (dirname p) < length p"
  using dirname_prefix [of p] by (metis prefix_length_le le_neq_implies_less prefix_order.eq_iff prefix_length_prefix order_refl)

text \<open>
  \<open>os.makedirs(p, exist_ok=True)\<close>: creates \<open>p\<close> and its missing ancestors; fails when
  \<open>p\<close> is a regular file or lies below one.  Paths are absolute: there is no current
  directory in the model.
\<close>

function os_makedirs :: "filesystem \<Rightarrow> string \<Rightarrow> error + filesystem" where
  "os_makedirs fs p =
     (case map_of fs p of
        Some Dir \<Rightarrow> Inr fs
      | Some (File c) \<Rightarrow> Inl (FileExistsError p)
      | None \<Rightarrow>
          if dirname p = [] \<or> dirname p = p then Inl (FileNotFoundError p)
          else if os_path_isfile fs (dirname p) then Inl (NotADirectoryError p)
          else (case os_makedirs fs (dirname p) of
                  Inl e \<Rightarrow> Inl e
                | Inr fs1 \<Rightarrow> Inr (fs1 @ [(p, Dir)])))"
  by pat_completeness auto
termination
  by (relation "measure (\<lambda>(fs, p). length p)") (auto simp: dirname_shorter)

declare os_makedirs.simps [simp del]

text \<open>Replace the prefix \<open>src\<close> of a path below \<open>src\<close> by \<open>dst\<close>.\<close>

definition rebase :: "string \<Rightarrow> string \<Rightarrow> string \<Rightarrow> string" where
  "rebase src dst p = (if p = src \<or> prefix (src @ ''/'') p then dst @ drop (length src) p else p)"

text \<open>
  \<open>os.rename\<close> (and \<open>os.replace\<close>): a regular file replaces a regular file at the
  destination; a directory moves with everything below it.
\<close>

definition os_rename :: "filesystem \<Rightarrow> string \<Rightarrow> string \<Rightarrow> error + filesystem" where
  "os_rename fs src dst =
     (case map_of fs src of
        None \<Rightarrow> Inl (FileNotFoundError src)
      | Some n \<Rightarrow>
          if \<not> os_path_isdir fs (dirname dst) then Inl (FileNotFoundError dst)
          else if src = dst then Inr fs
          else (case (n, map_of fs dst) of
                  (File c, Some Dir) \<Rightarrow> Inl (IsADirectoryError dst)
                | (File c, _) \<Rightarrow> Inr ((dst, File c) # filter (\<lambda>(p, _). p \<noteq> src \<and> p \<noteq> dst) fs)
                | (Dir, Some (File c)) \<Rightarrow> Inl (NotADirectoryError dst)
                | (Dir, other) \<Rightarrow>
                    if prefix (src @ ''/'') dst then Inl (OSError dst)
                    else if other = Some Dir \<and> listdir fs dst \<noteq> [] then Inl (OSError dst)
                    else Inr (map (\<lambda>(p, n). (rebase src dst p, n)) (filter (\<lambda>(p, _). p \<noteq> dst) fs))))"

text \<open>\<open>os.link\<close> never replaces an existing destination; \<open>shutil.copy2\<close> does.\<close>

definition os_link :: "filesystem \<Rightarrow> string \<Rightarrow> string \<Rightarrow> error + filesystem" where
  "os_link fs src dst =
     (case map_of fs src of
        None \<Rightarrow> Inl (FileNotFoundError src)
      | Some Dir \<Rightarrow> Inl (OSError src)
      | Some (File c) \<Rightarrow>
          if \<not> os_path_isdir fs (dirname dst) then Inl (FileNotFoundError dst)
          else if os_path_exists fs dst then Inl (FileExistsError dst)
          else Inr (fs @ [(dst, File c)]))"

definition shutil_copy2 :: "filesystem \<Rightarrow> string \<Rightarrow> string \<Rightarrow> error + filesystem" where
  "shutil_copy2 fs src dst =
     (let target = (if os_path_isdir fs dst then join dst (basename src) else dst) in
      case map_of fs src of
        None \<Rightarrow> Inl (FileNotFoundError src)
      | Some Dir \<Rightarrow> Inl (IsADirectoryError src)
      | Some (File c) \<Rightarrow>
          if src = target then Inl (OSError src)
          else if os_path_isdir fs target then Inl (IsADirectoryError target)
          else if \<not> os_path_isdir fs (dirname target) then Inl (FileNotFoundError target)
          else Inr ((target, File c) # filter (\<lambda>(p, _). p \<noteq> target) fs))"

section \<open>Disambiguated destinations: \<open>unique_path\<close>\<close>

text \<open>The candidate \<open>f"{base} ({n}){ext}"\<close>.\<close>

definition numbered :: "string \<Rightarrow> string \<Rightarrow> nat \<Rightarrow> string" where
  "numbered base ext n = base @ '' ('' @ str_nat n @ '')'' @ ext"

lemma inj_numbered: "inj (numbered base ext)"
  using inj_str_nat by (auto simp: inj_def numbered_def)

lemma finite_numbered_existing: "finite {k. os_path_exists fs (numbered base ext k)}"
proof -
  have "{k. os_path_exists fs (numbered base ext k)} = numbered base ext -` (fst ` set fs)"
    by (auto simp: os_path_exists_def map_of_eq_None_iff)
  then show ?thesis
    by (simp add: finite_vimageI inj_numbered)
qed

text \<open>The \<open>while os.path.exists(...)\<close> loop of \<open>unique_path\<close>, returning the final \<open>n\<close>.\<close>

function unique_loop :: "filesystem \<Rightarrow> string \<Rightarrow> string \<Rightarrow> nat \<Rightarrow> nat" where
  "unique_loop fs base ext n =
     (if os_path_exists fs (numbered base ext n) then unique_loop fs base ext (n + 1) else n)"
  by pat_completeness auto
termination
proof (relation "measure (\<lambda>(fs, base, ext, n). card {k. n \<le> k \<and> os_path_exists fs (numbered base ext k)})")
  show "wf (measure (\<lambda>(fs, base, ext, n). card {k. n \<le> k \<and> os_path_exists fs (numbered base ext k)}))"
    by simp
next
  fix fs :: filesystem and base ext :: string and n :: nat
  assume ex: "os_path_exists fs (numbered base ext n)"
  let ?A = "\<lambda>m. {k. m \<le> k \<and> os_path_exists fs (numbered base ext k)}"
  have fin: "finite (?A n)"
    using finite_numbered_existing [of fs base ext] by (rule rev_finite_subset) auto
  have "n \<in> ?A n" "n \<notin> ?A (n + 1)" "?A (n + 1) \<subseteq> ?A n"
    using ex by auto
  then have "?A (n + 1) \<subset> ?A n"
    by blast
  then have "card (?A (n + 1)) < card (?A n)"
    using fin by (rule psubset_card_mono [rotated])
  then show "((fs, base, ext, n + 1), (fs, base, ext, n))
      \<in> measure (\<lambda>(fs, base, ext, n). card {k. n \<le> k \<and> os_path_exists fs (numbered base ext k)})"
    by simp
qed

declare unique_loop.simps [simp del]

definition unique_path :: "filesystem \<Rightarrow> string \<Rightarrow> string" where
  "unique_path fs path =
     (if \<not> os_path_exists fs path then path
      else (let (base, ext) = splitext path in numbered base ext (unique_loop fs base ext 2)))"

lemma unique_loop_ge: "n \<le> unique_loop fs base ext n"
  by (induction fs base ext n rule: unique_loop.induct)
     (subst unique_loop.simps, auto split: if_splits)

lemma unique_loop_free: "\<not> os_path_exists fs (numbered base ext (unique_loop fs base ext n))"
  by (induction fs base ext n rule: unique_loop.induct)
     (subst unique_loop.simps, auto split: if_splits)

lemma unique_loop_least:
  "n \<le> k \<Longrightarrow> k < unique_loop fs base ext n \<Longrightarrow> os_path_exists fs (numbered base ext k)"
proof (induction fs base ext n rule: unique_loop.induct)
  case (1 fs base ext n)
  show ?case
  proof (cases "os_path_exists fs (numbered base ext n)")
    case True
    show ?thesis
    proof (cases "k = n")
      case True
      with \<open>os_path_exists fs (numbered base ext n)\<close> show ?thesis by simp
    next
      case False
      with 1 True show ?thesis
        by (subst (asm) (2) unique_loop.simps) simp
    qed
  next
    case False
    with 1 show ?thesis
      by (subst (asm) (2) unique_loop.simps) simp
  qed
qed

text \<open>
  Claim C6.  When the planned destination exists, \<open>unique_path\<close> returns the path with
  \<open>" (N)"\<close> inserted before the extension, where \<open>N\<close> is the smallest integer from 2 on
  whose suffixed path does not exist; when the planned destination does not exist it is
  returned unchanged; and the returned path never exists on disk.
\<close>

theorem unique_path_smallest_free_suffix:
  "(\<not> os_path_exists fs path \<longrightarrow> unique_path fs path = path) \<and>
   (os_path_exists fs path \<longrightarrow>
      (\<exists>n. 2 \<le> n \<and>
           unique_path fs path = fst (splitext path) @ '' ('' @ str_nat n @ '')'' @ snd (splitext path) \<and>
           (\<forall>k. 2 \<le> k \<and> k < n \<longrightarrow>
              os_path_exists fs (fst (splitext path) @ '' ('' @ str_nat k @ '')'' @ snd (splitext path))))) \<and>
   \<not> os_path_exists fs (unique_path fs path)"
proof -
  obtain base ext where se: "splitext path = (base, ext)"
    by (cases "splitext path")
  let ?n = "unique_loop fs base ext 2"
  have a: "\<not> os_path_exists fs path \<Longrightarrow> unique_path fs path = path"
    by (simp add: unique_path_def)
  have b: "os_path_exists fs path \<Longrightarrow> unique_path fs path = numbered base ext ?n"
    by (simp add: unique_path_def se)
  have c: "2 \<le> ?n"
    by (rule unique_loop_ge)
  have d: "\<forall>k. 2 \<le> k \<and> k < ?n \<longrightarrow> os_path_exists fs (numbered base ext k)"
    using unique_loop_least by blast
  have e: "\<not> os_path_exists fs (unique_path fs path)"
    using a b unique_loop_free [of fs base ext 2] by (cases "os_path_exists fs path") simp_all
  show ?thesis
    using a b c d e unfolding se numbered_def by auto
qed

theorem unique_path_smallest_free_suffix_witness:
  "os_path_exists [(''/d/a.mp4'', File 1), (''/d/a (2).mp4'', File 2)] ''/d/a.mp4'' \<and>
   unique_path [(''/d/a.mp4'', File 1), (''/d/a (2).mp4'', File 2)] ''/d/a.mp4'' = ''/d/a (3).mp4'' \<and>
   \<not> os_path_exists [(''/d/a.mp4'', File 1), (''/d/a (2).mp4'', File 2)] (''/d/a (3).mp4'')"
proof -
  let ?fs = "[(''/d/a.mp4'', File 1), (''/d/a (2).mp4'', File 2)]"
  have ex: "os_path_exists ?fs ''/d/a.mp4''"
    by (simp add: os_path_exists_def)
  have val: "unique_path ?fs ''/d/a.mp4'' = ''/d/a (3).mp4''"
    by code_simp
  from unique_path_smallest_free_suffix [of ?fs "''/d/a.mp4''"]
  have "\<not> os_path_exists ?fs (unique_path ?fs ''/d/a.mp4'')"
    by blast
  with ex val show ?thesis
    by simp
qed

section \<open>Promoting variants: \<open>promote_plex_appletv_variants.py\<close>\<close>

record plan_item =
  variant :: string
  original :: string
  backup_original :: string

definition ensure_parent :: "filesystem \<Rightarrow> string \<Rightarrow> error + filesystem" where
  "ensure_parent fs path = os_makedirs fs (dirname path)"

text \<open>
  \<open>promote_one\<close> returns the exception it raised, if any, and the file system it left.
\<close>

definition promote_one :: "plan_item \<Rightarrow> filesystem \<Rightarrow> error option \<times> filesystem" where
  "promote_one p fs =
     (if \<not> os_path_exists fs (variant p) then (Some (FileNotFoundError (variant p)), fs)
      else if \<not> os_path_exists fs (original p) then (Some (FileNotFoundError (original p)), fs)
      else if os_path_exists fs (backup_original p) then (Some (FileExistsError (backup_original p)), fs)
      else case ensure_parent fs (backup_original p) of
        Inl e \<Rightarrow> (Some e, fs)
      | Inr fs1 \<Rightarrow>
      (case os_rename fs1 (original p) (backup_original p) of
        Inl e \<Rightarrow> (Some e, fs1)
      | Inr fs2 \<Rightarrow>
      (case ensure_parent fs2 (original p) of
        Inl e \<Rightarrow> (Some e, fs2)
      | Inr fs3 \<Rightarrow>
      (case os_rename fs3 (variant p) (original p) of
        Inl e \<Rightarrow> (Some e, fs3)
      | Inr fs4 \<Rightarrow> (None, fs4)))))"

lemma os_makedirs_keeps:
  "os_makedirs fs p = Inr fs1 \<Longrightarrow> map_of fs q = Some n \<Longrightarrow> map_of fs1 q = Some n"
proof (induction fs p arbitrary: fs1 rule: os_makedirs.induct)
  case (1 fs p)
  show ?case
  proof (cases "map_of fs p")
    case None
    with "1.prems"(1) obtain fs0 where
      rec: "os_makedirs fs (dirname p) = Inr fs0" and fs1: "fs1 = fs0 @ [(p, Dir)]"
      and c: "\<not> (dirname p = [] \<or> dirname p = p)" "\<not> os_path_isfile fs (dirname p)"
      by (subst (asm) os_makedirs.simps) (auto split: if_splits sum.splits)
    have "map_of fs0 q = Some n"
      using "1.IH" [OF None c rec "1.prems"(2)] .
    then show ?thesis
      by (simp add: fs1 map_add_Some_iff)
  next
    case (Some a)
    with "1.prems" show ?thesis
      by (subst (asm) os_makedirs.simps) (auto split: node.splits)
  qed
qed

lemma os_makedirs_new:
  "os_makedirs fs p = Inr fs1 \<Longrightarrow> map_of fs q = None \<Longrightarrow> map_of fs1 q \<noteq> None \<Longrightarrow>
     prefix q p \<and> map_of fs1 q = Some Dir"
proof (induction fs p arbitrary: fs1 rule: os_makedirs.induct)
  case (1 fs p)
  show ?case
  proof (cases "map_of fs p")
    case None
    with "1.prems"(1) obtain fs0 where
      rec: "os_makedirs fs (dirname p) = Inr fs0" and fs1: "fs1 = fs0 @ [(p, Dir)]"
      and c: "\<not> (dirname p = [] \<or> dirname p = p)" "\<not> os_path_isfile fs (dirname p)"
      by (subst (asm) os_makedirs.simps) (auto split: if_splits sum.splits)
    show ?thesis
    proof (cases "map_of fs0 q")
      case None
      with "1.prems"(3) have "q = p"
        by (auto simp: fs1 map_add_def split: option.splits if_splits)
      with None show ?thesis
        by (simp add: fs1 map_add_def)
    next
      case (Some a)
      then have "prefix q (dirname p) \<and> map_of fs0 q = Some Dir"
        using "1.IH" [OF \<open>map_of fs p = None\<close> c rec "1.prems"(2)] by simp
      then show ?thesis
        using dirname_prefix [of p] by (auto simp: fs1 map_add_def intro: prefix_order.trans)
    qed
  next
    case (Some a)
    with "1.prems" show ?thesis
      by (subst (asm) os_makedirs.simps) (auto split: node.splits)
  qed
qed


lemma os_rename_file:
  assumes "os_rename fs src dst = Inr fs'" "map_of fs src = Some (File c)" "src \<noteq> dst"
  shows "map_of fs' dst = Some (File c)" "map_of fs' src = None"
    "q \<noteq> src \<Longrightarrow> q \<noteq> dst \<Longrightarrow> map_of fs' q = map_of fs q"
proof -
  from assms have fs': "fs' = (dst, File c) # filter (\<lambda>(p, _). p \<noteq> src \<and> p \<noteq> dst) fs"
    by (auto simp: os_rename_def split: if_splits option.splits node.splits)
  have flt: "map_of (filter (\<lambda>(p, _). p \<noteq> src \<and> p \<noteq> dst) fs) q =
      (if q \<noteq> src \<and> q \<noteq> dst then map_of fs q else None)" for q
    by (induction fs) auto
  show "map_of fs' dst = Some (File c)"
    by (simp add: fs')
  show "map_of fs' src = None"
    using assms(3) by (simp add: fs' flt)
  show "q \<noteq> src \<Longrightarrow> q \<noteq> dst \<Longrightarrow> map_of fs' q = map_of fs q"
    by (simp add: fs' flt)
qed









section \<open>Name components shared by the scripts\<close>

text \<open>\<open>INVALID_FS.sub(" ", s)\<close>: every character of \<open>\/:*?"<>|\<close> becomes a blank.\<close>

definition invalid_fs_char :: "char \<Rightarrow> bool" where
  "invalid_fs_char c = (c \<in> set [CHR 0x5C, CHR ''/'', CHR '':'', CHR ''*'', CHR ''?'', CHR 0x22, CHR ''<'', CHR ''>'', CHR ''|''])"

definition invalid_fs_sub :: "string \<Rightarrow> string" where
  "invalid_fs_sub s = map (\<lambda>c. if invalid_fs_char c then CHR '' '' else c) s"

text \<open>
  \<open>WS_RE.sub(" ", s)\<close>: every maximal run of white space becomes one blank.  The flag says
  that the previous character was white space.
\<close>

fun ws_sub_from :: "bool \<Rightarrow> string \<Rightarrow> string" where
  "ws_sub_from b [] = []"
| "ws_sub_from b (c # cs) =
     (if is_space c then (if b then ws_sub_from True cs else CHR '' '' # ws_sub_from True cs)
      else c # ws_sub_from False cs)"

definition ws_sub :: "string \<Rightarrow> string" where
  "ws_sub s = ws_sub_from False s"

definition safe_component :: "string \<Rightarrow> string" where
  "safe_component s = strip (ws_sub (invalid_fs_sub s))"

text \<open>\<open>f"{n:02d}"\<close> for a non-negative integer.\<close>

definition fmt02 :: "nat \<Rightarrow> string" where
  "fmt02 n = (if n < 10 then ''0'' @ str_nat n else str_nat n)"

text \<open>\<open>f"{ep:02d}" if ep < 100 else str(ep)\<close>.\<close>

definition ep_tag :: "nat \<Rightarrow> string" where
  "ep_tag ep = (if ep < 100 then fmt02 ep else str_nat ep)"

section \<open>\<open>jtswing_single_show.py\<close>\<close>


















section \<open>\<open>reorg_plex_tv.py\<close>\<close>



definition is_upper :: "char \<Rightarrow> bool" where
  "is_upper c = (let n = (of_char c :: nat) in 65 \<le> n \<and> n \<le> 90)"

definition is_lower :: "char \<Rightarrow> bool" where
  "is_lower c = (let n = (of_char c :: nat) in 97 \<le> n \<and> n \<le> 122)"

definition lower_char :: "char \<Rightarrow> char" where
  "lower_char c = (if is_upper c then char_of (of_char c + (32::nat)) else c)"


definition lower :: "string \<Rightarrow> string" where
  "lower s = map lower_char s"


text \<open>\<open>\w\<close>: letters, digits and the underscore.\<close>

definition is_word :: "char \<Rightarrow> bool" where
  "is_word c = (is_upper c \<or> is_lower c \<or> is_digit c \<or> c = CHR ''_'')"

text \<open>\<open>x in s\<close> for strings: \<open>x\<close> occurs in \<open>s\<close> as a contiguous block.\<close>

fun contains :: "string \<Rightarrow> string \<Rightarrow> bool" where
  "contains [] x = (x = [])"
| "contains (c # cs) x = (prefix x (c # cs) \<or> contains cs x)"

text \<open>\<open>permalink_to_base\<close>: drop a final \<open>mp4\<close>, then strip \<open>-\<close> and \<open>_\<close> at both ends.\<close>

definition permalink_to_base :: "string \<Rightarrow> string" where
  "permalink_to_base pl =
     (let s = (if endswith pl ''mp4'' then take (length pl - 3) pl else pl)
      in strip_chars (\<lambda>c. c = CHR ''-'' \<or> c = CHR ''_'') s)"












text \<open>\<open>find_source_file\<close>: the direct name, else the first listed name with the base as prefix.\<close>

definition find_source_file :: "filesystem \<Rightarrow> string \<Rightarrow> string \<Rightarrow> string \<Rightarrow> bool \<Rightarrow> string option" where
  "find_source_file fs root collection_dir pl prefer_non_variants =
     (let base = permalink_to_base pl;
          dpath = join root collection_dir;
          direct = join dpath (base @ ''.mp4'')
      in if os_path_exists fs direct
         then (if prefer_non_variants \<and> contains (basename direct) ''.plex-appletv'' then None
               else Some direct)
         else if \<not> os_path_isdir fs dpath then None
         else case filter (\<lambda>fn. endswith fn ''.mp4'' \<and> startswith fn base \<and>
                                \<not> (prefer_non_variants \<and> contains fn ''.plex-appletv''))
                     (listdir fs dpath) of
                [] \<Rightarrow> None
              | fn # _ \<Rightarrow> Some (join dpath fn))"
















definition is_Exception :: "error \<Rightarrow> bool" where
  "is_Exception e = (case e of SystemExit _ \<Rightarrow> False | _ \<Rightarrow> True)"





section \<open>The apply loop of \<open>promote_plex_appletv_variants.py\<close>\<close>

definition promote_one_delete_original :: "plan_item \<Rightarrow> filesystem \<Rightarrow> error option \<times> filesystem" where
  "promote_one_delete_original p fs =
     (if \<not> os_path_exists fs (variant p) then (Some (FileNotFoundError (variant p)), fs)
      else case ensure_parent fs (original p) of
        Inl e \<Rightarrow> (Some e, fs)
      | Inr fs1 \<Rightarrow>
          (case os_rename fs1 (variant p) (original p) of
             Inl e \<Rightarrow> (Some e, fs1)
           | Inr fs2 \<Rightarrow> (None, fs2)))"

text \<open>What the loop prints for an item: \<open>DONE\<close> with the original, or \<open>ERROR\<close> with the variant.\<close>

datatype outcome = DONE string | ERROR string error

text \<open>
  The loop \<open>for p in plan\<close> of \<open>main\<close>: the lines printed, the number of errors, the
  exception that left the loop, if any (\<open>except Exception\<close> does not catch \<open>SystemExit\<close>),
  and the file system.
\<close>

fun promote_loop ::
  "bool \<Rightarrow> plan_item list \<Rightarrow> filesystem \<Rightarrow> outcome list \<times> nat \<times> error option \<times> filesystem" where
  "promote_loop delete_originals [] fs = ([], 0, None, fs)"
| "promote_loop delete_originals (p # ps) fs =
     (case (if delete_originals then promote_one_delete_original p fs else promote_one p fs) of
        (None, fs1) \<Rightarrow>
          (case promote_loop delete_originals ps fs1 of
             (outs, errors, r, fs2) \<Rightarrow> (DONE (original p) # outs, errors, r, fs2))
      | (Some e, fs1) \<Rightarrow>
          if is_Exception e
          then (case promote_loop delete_originals ps fs1 of
                  (outs, errors, r, fs2) \<Rightarrow> (ERROR (variant p) e # outs, errors + 1, r, fs2))
          else ([], 0, Some e, fs1))"





































section \<open>Episode numbers: \<open>organize_dance_tvshows.py\<close> and \<open>organize_uscreen_tree_as_show.py\<close>\<close>

text \<open>The first alternative that succeeds, in backtracking order.\<close>

fun first_some :: "('a \<Rightarrow> 'b option) \<Rightarrow> 'a list \<Rightarrow> 'b option" where
  "first_some f [] = None"
| "first_some f (x # xs) = (case f x of Some y \<Rightarrow> Some y | None \<Rightarrow> first_some f xs)"

text \<open>
  \<open>(.+)$\<close> at the start of \<open>t\<close>: the dot takes no line feed, and \<open>$\<close> holds at the end or
  before a final line feed.
\<close>

definition dot_plus_end :: "string \<Rightarrow> string option" where
  "dot_plus_end t =
     (let u = takeWhile (\<lambda>c. c \<noteq> CHR 0x0A) t; t' = dropWhile (\<lambda>c. c \<noteq> CHR 0x0A) t
      in if u \<noteq> [] \<and> (t' = [] \<or> t' = [CHR 0x0A]) then Some u else None)"

text \<open>\<open>\s*(.+)$\<close>: the white space is greedy and gives back one character at a time.\<close>

definition ws_then_rest :: "string \<Rightarrow> string option" where
  "ws_then_rest t =
     first_some (\<lambda>j. dot_plus_end (drop j t)) (rev [0 ..< Suc (length (takeWhile is_space t))])"

text \<open>
  \<open>LEADING_NUM_RE\<close> and \<open>LEADING_EP_RE\<close>, both \<open>^(\d{1,4})\s*[-_. ]\s*(.+)$\<close>, applied
  with \<open>match\<close>: the groups \<open>(n, rest)\<close>.
\<close>

definition LEADING_NUM_RE_match :: "string \<Rightarrow> (string \<times> string) option" where
  "LEADING_NUM_RE_match s =
     (let ds = takeWhile is_digit s; r = dropWhile is_digit s
      in if ds = [] \<or> 4 < length ds then None
         else case first_some
                (\<lambda>m. if m < length r \<and> r ! m \<in> set ''-_. '' then ws_then_rest (drop (Suc m) r) else None)
                (rev [0 ..< Suc (length (takeWhile is_space r))]) of
                None \<Rightarrow> None
              | Some rest \<Rightarrow> Some (ds, rest))"




definition parse_ep :: "string \<Rightarrow> nat option" where
  "parse_ep base =
     (case LEADING_NUM_RE_match base of Some (ep, rest) \<Rightarrow> Some (int_of_digits ep) | None \<Rightarrow> None)"

text \<open>
  The numbering of one season or show group: \<open>extracted\<close> holds the parsed numbers,
  \<open>have_any\<close> says that one of them is present, and \<open>seq\<close> counts the files numbered in
  sequence.
\<close>

fun number_loop :: "bool \<Rightarrow> nat \<Rightarrow> nat option list \<Rightarrow> nat list" where
  "number_loop have_any seq [] = []"
| "number_loop have_any seq (x # xs) =
     (case (if have_any then x else None) of
        None \<Rightarrow> seq # number_loop have_any (seq + 1) xs
      | Some ep \<Rightarrow> ep # number_loop have_any seq xs)"

definition episode_numbers :: "nat option list \<Rightarrow> nat list" where
  "episode_numbers extracted = number_loop (list_ex (\<lambda>e. e \<noteq> None) extracted) 1 extracted"


definition uscreen_episode_numbers :: "string list \<Rightarrow> nat list" where
  "uscreen_episode_numbers files = episode_numbers (map (\<lambda>f. parse_ep (basename f)) files)"

definition VIDEO_EXTS :: "string list" where
  "VIDEO_EXTS = [''.mp4'', ''.mkv'', ''.mov'', ''.m4v'']"

definition is_video :: "string \<Rightarrow> bool" where
  "is_video path = (lower (snd (splitext path)) \<in> set VIDEO_EXTS)"




text \<open>The \<open>files\<close> of a season in \<open>organize_uscreen_tree_as_show.main\<close>.\<close>

definition season_files :: "filesystem \<Rightarrow> string \<Rightarrow> string list" where
  "season_files fs dir_path =
     sort (filter (\<lambda>p. os_path_isfile fs p \<and> is_video p) (map (join dir_path) (listdir fs dir_path)))"

lemma number_loop_length: "length (number_loop b seq xs) = length xs"
  by (induction xs arbitrary: seq) (auto split: option.splits)






section \<open>\<open>garysusan_rename_episode_files.py\<close>\<close>

text \<open>
  \<open>SEASON_DIR_RE = ^Season\s+(?P<n>\d{2})\s+-\s+(?P<cat>.+?)\s+-\s+(?P<coll>.+)$\<close>.
  \<open>season_tail\<close> matches \<open>\s+-\s+(?P<coll>.+)$\<close>; \<open>season_cat\<close> tries the lazy \<open>cat\<close> from
  the shortest on; \<open>SEASON_DIR_RE_match\<close> gives back white space before \<open>cat\<close> one
  character at a time.  The result is \<open>(n, cat, coll)\<close>.
\<close>

definition season_tail :: "string \<Rightarrow> string option" where
  "season_tail t =
     (let b = length (takeWhile is_space t) in
      if b = 0 then None
      else case drop b t of
             [] \<Rightarrow> None
           | c # r \<Rightarrow>
               if c \<noteq> CHR ''-'' then None
               else first_some (\<lambda>j. dot_plus_end (drop j r)) (rev [1 ..< Suc (length (takeWhile is_space r))]))"

fun season_cat :: "string \<Rightarrow> string \<Rightarrow> (string \<times> string) option" where
  "season_cat cat [] = None"
| "season_cat cat (c # cs) =
     (if c = CHR 0x0A then None
      else case season_tail cs of
             Some coll \<Rightarrow> Some (cat @ [c], coll)
           | None \<Rightarrow> season_cat (cat @ [c]) cs)"

definition SEASON_DIR_RE_match :: "string \<Rightarrow> (string \<times> string \<times> string) option" where
  "SEASON_DIR_RE_match s =
     (if \<not> prefix ''Season'' s then None else
      let r1 = drop 6 s; w1 = length (takeWhile is_space r1); r2 = drop w1 r1; n = take 2 r2; r3 = drop 2 r2;
          w2 = length (takeWhile is_space r3); r4 = drop w2 r3
      in if w1 = 0 \<or> length n \<noteq> 2 \<or> \<not> list_all is_digit n \<or> w2 = 0 \<or> \<not> prefix ''-'' r4 then None
         else let r5 = drop 1 r4 in
           case first_some (\<lambda>a. season_cat [] (drop a r5)) (rev [1 ..< Suc (length (takeWhile is_space r5))]) of
             None \<Rightarrow> None
           | Some (cat, coll) \<Rightarrow> Some (n, cat, coll))"

text \<open>
  \<open>EP_FILE_RE = ^(?P<show>GarySusan) - S(?P<s>\d{2})E(?P<e>\d+) - (?P<title>.+)\.mp4$\<close>:
  the groups \<open>(s, e, title)\<close>.
\<close>

definition EP_FILE_RE_match :: "string \<Rightarrow> (string \<times> string \<times> string) option" where
  "EP_FILE_RE_match fn =
     (if \<not> prefix ''GarySusan - S'' fn then None else
      let r1 = drop 13 fn; s = take 2 r1; r2 = drop 2 r1 in
      if length s \<noteq> 2 \<or> \<not> list_all is_digit s \<or> \<not> prefix ''E'' r2 then None else
      let r3 = drop 1 r2; e = takeWhile is_digit r3; r4 = dropWhile is_digit r3 in
      if e = [] \<or> \<not> prefix '' - '' r4 then None else
      let r5 = drop 3 r4;
          body = (if suffix [CHR 0x0A] r5 then butlast r5 else r5);
          title = take (length body - 4) body
      in if suffix ''.mp4'' body \<and> title \<noteq> [] \<and> CHR 0x0A \<notin> set title then Some (s, e, title) else None)"

text \<open>
  \<open>BRACKET_ID_RE.sub("", t)\<close> for \<open>\s*\[[0-9]+\]\s*$\<close>: a final bracketed number goes, with
  the white space around it.
\<close>

definition BRACKET_ID_RE_sub :: "string \<Rightarrow> string" where
  "BRACKET_ID_RE_sub t =
     (case dropWhile is_space (rev t) of
        [] \<Rightarrow> t
      | c # r \<Rightarrow>
          if c \<noteq> CHR '']'' \<or> takeWhile is_digit r = [] then t
          else (case dropWhile is_digit r of
                  [] \<Rightarrow> t
                | c' # r' \<Rightarrow> if c' = CHR ''['' then rev (dropWhile is_space r') else t))"

text \<open>
  \<open>re.sub(r"\bVolume\s+", "", c, flags=re.IGNORECASE)\<close>.  The flag says that the previous
  character is a word character, so that \<open>\b\<close> fails here.
\<close>

lemma dropWhile_drop_shorter: "length (dropWhile P (drop n xs)) < Suc (length xs)"
  by (rule le_imp_less_Suc) (rule order_trans [OF length_dropWhile_le], simp)

function volume_sub :: "bool \<Rightarrow> string \<Rightarrow> string" where
  "volume_sub prev_word [] = []"
| "volume_sub prev_word (c # cs) =
     (if \<not> prev_word \<and> lower (take 6 (c # cs)) = ''volume'' \<and> takeWhile is_space (drop 5 cs) \<noteq> []
      then volume_sub False (dropWhile is_space (drop 5 cs))
      else c # volume_sub (is_word c) cs)"
  by pat_completeness auto
termination
  by (relation "measure (\<lambda>(b, s). length s)") (auto simp: dropWhile_drop_shorter)

text \<open>\<open>s.replace(old, new)\<close> for a non-empty \<open>old\<close>: its occurrences from the left, not overlapping.\<close>

function str_replace :: "string \<Rightarrow> string \<Rightarrow> string \<Rightarrow> string" where
  "str_replace old new [] = []"
| "str_replace old new (c # cs) =
     (if old \<noteq> [] \<and> prefix old (c # cs)
      then new @ str_replace old new (drop (length old) (c # cs))
      else c # str_replace old new cs)"
  by pat_completeness auto
termination
  by (relation "measure (\<lambda>(old, new, s). length s)") (auto simp: neq_Nil_conv)

text \<open>
  \<open>candidate_prefixes\<close>.  The two sets are given as lists without repetition; Python
  leaves their iteration order open.
\<close>

definition candidate_prefixes :: "string \<Rightarrow> string list" where
  "candidate_prefixes coll =
     (let c = strip coll;
          out = [c, strip (volume_sub False c), str_replace '' and '' '' & '' c, str_replace '' & '' '' and '' c];
          out2 = remdups (map (\<lambda>s. strip (ws_sub s)) out)
      in filter (\<lambda>s. s \<noteq> []) out2)"

text \<open>
  The pattern \<open>^ + re.escape(p) + \s*(?:-|:|\<dots>)\s*\<close> of \<open>strip_prefix\<close>, ignoring case, where
  the third separator is the full-width colon U+FF1A (three bytes in UTF-8): what is left
  of \<open>t\<close> after the match, if it matches.
\<close>

definition prefix_echo :: "string \<Rightarrow> string \<Rightarrow> string option" where
  "prefix_echo p t =
     (if lower (take (length p) t) \<noteq> lower p then None
      else let r = dropWhile is_space (drop (length p) t) in
           if prefix ''-'' r \<or> prefix '':'' r then Some (dropWhile is_space (drop 1 r))
           else if prefix [CHR 0xEF, CHR 0xBC, CHR 0x9A] r then Some (dropWhile is_space (drop 3 r))
           else None)"

fun strip_prefix :: "string \<Rightarrow> string list \<Rightarrow> string" where
  "strip_prefix t [] = strip t"
| "strip_prefix t (p # ps) =
     (case prefix_echo p t of Some rest \<Rightarrow> strip rest | None \<Rightarrow> strip_prefix t ps)"

text \<open>
  The body of the inner loop of \<open>main\<close> up to \<open>new_fn\<close>: the new file name, or \<open>None\<close>
  when the loop moves on to the next file.
\<close>

definition gs_new_name :: "string list \<Rightarrow> string \<Rightarrow> string option" where
  "gs_new_name pfxs fn =
     (if \<not> endswith fn ''.mp4'' then None
      else case EP_FILE_RE_match fn of
        None \<Rightarrow> None
      | Some (s, e, title0) \<Rightarrow>
          let title = strip (BRACKET_ID_RE_sub title0);
              new_title = strip_prefix title pfxs;
              new_title = strip (ws_sub new_title)
          in if new_title = title then None
             else Some (''GarySusan - S'' @ s @ ''E'' @ e @ '' - '' @ new_title @ ''.mp4''))"

text \<open>
  The loops of \<open>main\<close>: the planned renames \<open>(src, dst)\<close>, the exception that ended the
  run, if any (\<open>os.rename\<close> is not guarded), and the file system.
\<close>

fun gs_files_loop ::
  "bool \<Rightarrow> string \<Rightarrow> string list \<Rightarrow> string list \<Rightarrow> filesystem \<Rightarrow>
     (string \<times> string) list \<times> error option \<times> filesystem" where
  "gs_files_loop ap s_path pfxs [] fs = ([], None, fs)"
| "gs_files_loop ap s_path pfxs (fn # fns) fs =
     (case gs_new_name pfxs fn of
        None \<Rightarrow> gs_files_loop ap s_path pfxs fns fs
      | Some new_fn \<Rightarrow>
          let src = join s_path fn; dst = unique_path fs (join s_path new_fn) in
          if ap
          then (case os_rename fs src dst of
                  Inl ex \<Rightarrow> ([(src, dst)], Some ex, fs)
                | Inr fs1 \<Rightarrow>
                    (case gs_files_loop ap s_path pfxs fns fs1 of
                       (ops, r, fs2) \<Rightarrow> ((src, dst) # ops, r, fs2)))
          else (case gs_files_loop ap s_path pfxs fns fs of
                  (ops, r, fs2) \<Rightarrow> ((src, dst) # ops, r, fs2)))"

fun gs_seasons_loop ::
  "bool \<Rightarrow> string \<Rightarrow> string list \<Rightarrow> filesystem \<Rightarrow>
     (string \<times> string) list \<times> error option \<times> filesystem" where
  "gs_seasons_loop ap root [] fs = ([], None, fs)"
| "gs_seasons_loop ap root (season_dir # rest) fs =
     (let s_path = join root season_dir in
      if \<not> os_path_isdir fs s_path then gs_seasons_loop ap root rest fs
      else case SEASON_DIR_RE_match season_dir of
        None \<Rightarrow> gs_seasons_loop ap root rest fs
      | Some (n, cat, coll) \<Rightarrow>
          (case gs_files_loop ap s_path (candidate_prefixes coll) (sort (listdir fs s_path)) fs of
             (ops, Some ex, fs1) \<Rightarrow> (ops, Some ex, fs1)
           | (ops, None, fs1) \<Rightarrow>
               (case gs_seasons_loop ap root rest fs1 of
                  (ops', r, fs2) \<Rightarrow> (ops @ ops', r, fs2))))"

definition garysusan_main ::
  "filesystem \<Rightarrow> string \<Rightarrow> bool \<Rightarrow> (string \<times> string) list \<times> error option \<times> filesystem" where
  "garysusan_main fs root ap =
     (case os_listdir fs root of
        Inl ex \<Rightarrow> ([], Some ex, fs)
      | Inr names \<Rightarrow> gs_seasons_loop ap root (sort names) fs)"

definition gs_example_fs :: filesystem where
  "gs_example_fs =
     [(''/'', Dir), (''/g'', Dir), (''/g/Season 01 - Basics 1 - Foundations'', Dir),
      (''/g/Season 01 - Basics 1 - Foundations/GarySusan - S01E01 - Foundations - Sugar Push [1516845].mp4'', File 1),
      (''/g/Season 01 - Basics 1 - Foundations/GarySusan - S01E02 - Whip [1516846].mp4'', File 2)]"


definition gs_bracket_only_fs :: filesystem where
  "gs_bracket_only_fs =
     [(''/'', Dir), (''/g'', Dir), (''/g/Season 01 - Basics 1 - Foundations'', Dir),
      (''/g/Season 01 - Basics 1 - Foundations/GarySusan - S01E02 - Whip [1516846].mp4'', File 2)]"

text \<open>
  Claim C9 fails on the code.  Normalising the title of
  \<open>GarySusan - S01E02 - Whip [1516846].mp4\<close> removes the bracketed id, yet no rename is
  planned: the new title is compared with the title the id was already taken from.
  With a prefix to strip as well, the same id does go (first conjunct).
\<close>

theorem garysusan_bracket_id_alone_is_not_renamed:
  "fst (garysusan_main gs_example_fs ''/g'' False) =
     [(''/g/Season 01 - Basics 1 - Foundations/GarySusan - S01E01 - Foundations - Sugar Push [1516845].mp4'',
       ''/g/Season 01 - Basics 1 - Foundations/GarySusan - S01E01 - Sugar Push.mp4'')] \<and>
   strip (ws_sub (strip_prefix (strip (BRACKET_ID_RE_sub ''Whip [1516846]'')) (candidate_prefixes ''Foundations'')))
     = ''Whip'' \<and>
   gs_new_name (candidate_prefixes ''Foundations'') ''GarySusan - S01E02 - Whip [1516846].mp4'' = None \<and>
   garysusan_main gs_bracket_only_fs ''/g'' True = ([], None, gs_bracket_only_fs)"
  by code_simp

theorem garysusan_bracket_id_alone_is_not_renamed_witness:
  "garysusan_main gs_bracket_only_fs ''/g'' True = ([], None, gs_bracket_only_fs)"
  using garysusan_bracket_id_alone_is_not_renamed by blast

section \<open>Title normalisation\<close>

text \<open>The title pipeline of \<open>garysusan_rename_episode_files.main\<close> (lines 94 to 96).\<close>

definition gs_normalize :: "string list \<Rightarrow> string \<Rightarrow> string" where
  "gs_normalize pfxs t = strip (ws_sub (strip_prefix (strip (BRACKET_ID_RE_sub t)) pfxs))"

text \<open>
  \<open>CID_SUFFIX_RE = \s*\(cid\s+[^)]+\)\s*$\<close>, ignoring case, at the start of \<open>u\<close>: the match
  always runs to the end of the string.
\<close>

definition cid_here :: "string \<Rightarrow> bool" where
  "cid_here u =
     (let u1 = dropWhile is_space u;
          c = drop 4 u1;
          content = takeWhile (\<lambda>x. x \<noteq> CHR '')'') c;
          rest = dropWhile (\<lambda>x. x \<noteq> CHR '')'') c
      in lower (take 4 u1) = ''(cid'' \<and> 2 \<le> length content \<and> is_space (hd content) \<and>
         rest \<noteq> [] \<and> list_all is_space (tl rest))"

text \<open>\<open>CID_SUFFIX_RE.sub("", t)\<close>: the text before the leftmost match.\<close>

fun CID_SUFFIX_RE_sub :: "string \<Rightarrow> string" where
  "CID_SUFFIX_RE_sub [] = []"
| "CID_SUFFIX_RE_sub (c # cs) = (if cid_here (c # cs) then [] else c # CID_SUFFIX_RE_sub cs)"

text \<open>\<open>DUP_SUFFIX_RE.sub("", t)\<close> for \<open>\s*\(\d+\)\s*$\<close>.\<close>

definition DUP_SUFFIX_RE_sub :: "string \<Rightarrow> string" where
  "DUP_SUFFIX_RE_sub t =
     (case dropWhile is_space (rev t) of
        [] \<Rightarrow> t
      | c # r \<Rightarrow>
          if c \<noteq> CHR '')'' \<or> takeWhile is_digit r = [] then t
          else (case dropWhile is_digit r of
                  [] \<Rightarrow> t
                | c' # r' \<Rightarrow> if c' = CHR ''('' then rev (dropWhile is_space r') else t))"

text \<open>The title pipeline of \<open>plex_title_from_filename.title_from_file_path\<close> (lines 116 to 119).\<close>

definition clean_title :: "string \<Rightarrow> string" where
  "clean_title t = strip (ws_sub (DUP_SUFFIX_RE_sub (CID_SUFFIX_RE_sub (BRACKET_ID_RE_sub t))))"


text \<open>Every white-space character is a blank, and no two are adjacent.\<close>

fun single_spaced :: "string \<Rightarrow> bool" where
  "single_spaced [] = True"
| "single_spaced [c] = (is_space c \<longrightarrow> c = CHR '' '')"
| "single_spaced (c # d # cs) = ((is_space c \<longrightarrow> c = CHR '' '' \<and> \<not> is_space d) \<and> single_spaced (d # cs))"

lemma single_spaced_fixed: "single_spaced s \<Longrightarrow> ws_sub_from False s = s"
  by (induction s rule: single_spaced.induct) auto

lemma ws_sub_from_spaced:
  "single_spaced (ws_sub_from b s) \<and> (b \<longrightarrow> ws_sub_from b s = [] \<or> \<not> is_space (hd (ws_sub_from b s)))"
proof (induction s arbitrary: b)
  case Nil
  show ?case by simp
next
  case (Cons c cs)
  have sp: "single_spaced (x # r)" if "single_spaced r" "is_space x \<longrightarrow> x = CHR '' '' \<and> (r = [] \<or> \<not> is_space (hd r))" for x r
    using that by (cases r) auto
  show ?case
  proof (cases "is_space c")
    case True
    from Cons [of True] have t: "single_spaced (ws_sub_from True cs)"
      "ws_sub_from True cs = [] \<or> \<not> is_space (hd (ws_sub_from True cs))"
      by simp_all
    from True t show ?thesis
      by (cases b) (auto intro!: sp)
  next
    case False
    from Cons [of False] have "single_spaced (ws_sub_from False cs)"
      by simp
    with False show ?thesis
      by (auto intro!: sp)
  qed
qed

lemma single_spaced_tl: "single_spaced (c # cs) \<Longrightarrow> single_spaced cs"
  by (cases cs) auto

lemma single_spaced_dropWhile: "single_spaced s \<Longrightarrow> single_spaced (dropWhile P s)"
  by (induction s) (auto dest: single_spaced_tl)

lemma single_spaced_prefix: "single_spaced (xs @ ys) \<Longrightarrow> single_spaced xs"
proof (induction xs rule: single_spaced.induct)
  case 1
  show ?case by simp
next
  case (2 c)
  then show ?case by (cases ys) auto
next
  case (3 c d cs)
  then show ?case by auto
qed

lemma single_spaced_rstrip:
  assumes "single_spaced s"
  shows "single_spaced (rstrip_chars P s)"
proof -
  obtain zs where "s = rstrip_chars P s @ zs"
    using rstrip_chars_prefix [of P s] by (auto simp: prefix_def)
  with assms have "single_spaced (rstrip_chars P s @ zs)"
    by simp
  then show ?thesis
    by (rule single_spaced_prefix)
qed

lemma single_spaced_strip: "single_spaced s \<Longrightarrow> single_spaced (strip s)"
  by (simp add: strip_def strip_chars_def lstrip_chars_def single_spaced_dropWhile single_spaced_rstrip)

lemma rstrip_chars_hd:
  "x \<noteq> [] \<Longrightarrow> \<not> P (hd x) \<Longrightarrow> rstrip_chars P x \<noteq> [] \<and> hd (rstrip_chars P x) = hd x"
proof -
  assume ne: "x \<noteq> []" and np: "\<not> P (hd x)"
  obtain zs where x: "x = rstrip_chars P x @ zs"
    using rstrip_chars_prefix [of P x] by (auto simp: prefix_def)
  have "rstrip_chars P x \<noteq> []"
  proof
    assume e: "rstrip_chars P x = []"
    then have "dropWhile P (rev x) = []"
      by (simp add: rstrip_chars_def)
    then have "\<forall>c \<in> set (rev x). P c"
      by (simp add: dropWhile_eq_Nil_conv)
    with ne np show False
      by (cases x) auto
  qed
  with x show ?thesis
    by (metis hd_append2)
qed

lemma rstrip_chars_idem: "rstrip_chars P (rstrip_chars P s) = rstrip_chars P s"
  by (simp add: rstrip_chars_def)

lemma strip_chars_idem: "strip_chars P (strip_chars P s) = strip_chars P s"
proof -
  let ?x = "dropWhile P s"
  have l: "dropWhile P (rstrip_chars P ?x) = rstrip_chars P ?x"
  proof (cases "?x = []")
    case True
    show ?thesis unfolding True by (simp add: rstrip_chars_def)
  next
    case False
    then have "\<not> P (hd ?x)"
      by (rule hd_dropWhile)
    with False have "rstrip_chars P ?x \<noteq> []" "\<not> P (hd (rstrip_chars P ?x))"
      using rstrip_chars_hd [of ?x P] by simp_all
    then show ?thesis
      by (cases "rstrip_chars P ?x") simp_all
  qed
  show ?thesis
    by (simp add: strip_chars_def lstrip_chars_def l rstrip_chars_idem)
qed

lemma strip_idem: "strip (strip s) = strip s"
  by (simp add: strip_def strip_chars_idem)

lemma strip_ws_sub_fixed: "strip (ws_sub (strip (ws_sub s))) = strip (ws_sub s)"
proof -
  have "single_spaced (strip (ws_sub s))"
    using ws_sub_from_spaced [of False s] by (simp add: ws_sub_def single_spaced_strip)
  then have "ws_sub (strip (ws_sub s)) = strip (ws_sub s)"
    by (simp add: ws_sub_def single_spaced_fixed)
  then show ?thesis
    by (simp add: strip_idem)
qed

text \<open>
  Claim C7, as amended.  Each pipeline is idempotent at every title whose normalised
  form has nothing left for the stripping steps to remove: no final bracketed id (and,
  for \<open>clean_title\<close>, no final cid or duplicate-count marker) and no leading prefix echo.
\<close>

theorem normalize_idempotent_when_stripped:
  "(BRACKET_ID_RE_sub (gs_normalize pfxs t) = gs_normalize pfxs t \<and>
    strip_prefix (gs_normalize pfxs t) pfxs = gs_normalize pfxs t \<longrightarrow>
      gs_normalize pfxs (gs_normalize pfxs t) = gs_normalize pfxs t) \<and>
   (BRACKET_ID_RE_sub (clean_title t) = clean_title t \<and>
    CID_SUFFIX_RE_sub (clean_title t) = clean_title t \<and>
    DUP_SUFFIX_RE_sub (clean_title t) = clean_title t \<longrightarrow>
      clean_title (clean_title t) = clean_title t)"
proof (intro conjI impI)
  assume h: "BRACKET_ID_RE_sub (gs_normalize pfxs t) = gs_normalize pfxs t \<and>
    strip_prefix (gs_normalize pfxs t) pfxs = gs_normalize pfxs t"
  let ?y = "gs_normalize pfxs t"
  have s: "strip ?y = ?y"
    by (simp add: gs_normalize_def strip_idem)
  have w: "strip (ws_sub ?y) = ?y"
    unfolding gs_normalize_def by (rule strip_ws_sub_fixed)
  have "gs_normalize pfxs ?y = strip (ws_sub (strip_prefix (strip (BRACKET_ID_RE_sub ?y)) pfxs))"
    by (simp add: gs_normalize_def)
  also have "\<dots> = strip (ws_sub ?y)"
    using h s by simp
  finally show "gs_normalize pfxs ?y = ?y"
    using w by simp
next
  assume h: "BRACKET_ID_RE_sub (clean_title t) = clean_title t \<and>
    CID_SUFFIX_RE_sub (clean_title t) = clean_title t \<and>
    DUP_SUFFIX_RE_sub (clean_title t) = clean_title t"
  let ?y = "clean_title t"
  have w: "strip (ws_sub ?y) = ?y"
    unfolding clean_title_def by (rule strip_ws_sub_fixed)
  have "clean_title ?y = strip (ws_sub (DUP_SUFFIX_RE_sub (CID_SUFFIX_RE_sub (BRACKET_ID_RE_sub ?y))))"
    by (simp add: clean_title_def)
  also have "\<dots> = strip (ws_sub ?y)"
    using h by simp
  finally show "clean_title ?y = ?y"
    using w by simp
qed

theorem normalize_idempotent_when_stripped_witness:
  "BRACKET_ID_RE_sub (gs_normalize [''Foundations''] ''Foundations - Sugar  Push [1516845]'')
     = gs_normalize [''Foundations''] ''Foundations - Sugar  Push [1516845]'' \<and>
   strip_prefix (gs_normalize [''Foundations''] ''Foundations - Sugar  Push [1516845]'') [''Foundations'']
     = gs_normalize [''Foundations''] ''Foundations - Sugar  Push [1516845]'' \<and>
   gs_normalize [''Foundations''] ''Foundations - Sugar  Push [1516845]'' = ''Sugar Push'' \<and>
   gs_normalize [''Foundations''] (gs_normalize [''Foundations''] ''Foundations - Sugar  Push [1516845]'')
     = gs_normalize [''Foundations''] ''Foundations - Sugar  Push [1516845]'' \<and>
   clean_title (clean_title ''Sugar  Push (2)'') = clean_title ''Sugar  Push (2)''"
proof -
  let ?t = "''Foundations - Sugar  Push [1516845]''"
  have v: "gs_normalize [''Foundations''] ?t = ''Sugar Push''"
    by code_simp
  have h1: "BRACKET_ID_RE_sub (gs_normalize [''Foundations''] ?t) = gs_normalize [''Foundations''] ?t"
    unfolding v by code_simp
  have h2: "strip_prefix (gs_normalize [''Foundations''] ?t) [''Foundations''] = gs_normalize [''Foundations''] ?t"
    unfolding v by code_simp
  have c: "clean_title ''Sugar  Push (2)'' = ''Sugar Push''"
    by code_simp
  have h3: "BRACKET_ID_RE_sub (clean_title ''Sugar  Push (2)'') = clean_title ''Sugar  Push (2)''"
    and h4: "CID_SUFFIX_RE_sub (clean_title ''Sugar  Push (2)'') = clean_title ''Sugar  Push (2)''"
    and h5: "DUP_SUFFIX_RE_sub (clean_title ''Sugar  Push (2)'') = clean_title ''Sugar  Push (2)''"
    unfolding c by code_simp+
  from normalize_idempotent_when_stripped [of "[''Foundations'']" ?t] h1 h2
  have a: "gs_normalize [''Foundations''] (gs_normalize [''Foundations''] ?t) = gs_normalize [''Foundations''] ?t"
    by blast
  from normalize_idempotent_when_stripped [of "[''Foundations'']" "''Sugar  Push (2)''"] h3 h4 h5
  have b: "clean_title (clean_title ''Sugar  Push (2)'') = clean_title ''Sugar  Push (2)''"
    by blast
  from a b h1 h2 v show ?thesis
    by blast
qed

text \<open>
  Claim C7 as stated fails: every stripping step removes one marker or one prefix echo,
  so a second pass can remove what the first uncovered.
\<close>

theorem normalize_twice_differs:
  "gs_normalize [''Foundations''] ''Foundations - Foundations - Sugar Push [1] [2]''
     = ''Foundations - Sugar Push [1]'' \<and>
   gs_normalize [''Foundations''] ''Foundations - Sugar Push [1]'' = ''Sugar Push'' \<and>
   clean_title ''X [1] (2)'' = ''X [1]'' \<and>
   clean_title ''X [1]'' = ''X''"
  by code_simp

section \<open>Matching variants to originals: \<open>plan_promotions\<close>\<close>

definition SUFFIX :: string where
  "SUFFIX = ''.plex-appletv.mp4''"

text \<open>
  \<open>os.path.relpath(path, root)\<close> for an absolute, normal \<open>root\<close> and a path equal to it or
  below it.
\<close>

definition relpath :: "string \<Rightarrow> string \<Rightarrow> string" where
  "relpath path root = (if path = root then ''.'' else drop (length root + 1) path)"

text \<open>
  The files \<open>os.walk(base)\<close> yields, as \<open>(dirpath, fn)\<close>: in a table where the parent of every
  entry is a directory entry, the entries below \<open>base\<close> that are not directories.
\<close>

definition walk_files :: "filesystem \<Rightarrow> string \<Rightarrow> (string \<times> string) list" where
  "walk_files fs base =
     map (\<lambda>p. (dirname p, basename p))
       (filter (\<lambda>p. os_path_isfile fs p \<and> prefix (base @ ''/'') p) (remdups (map fst fs)))"

text \<open>\<open>build_original_index\<close>: the dictionary as the list of its items, in insertion order.\<close>

definition build_original_index :: "filesystem \<Rightarrow> string \<Rightarrow> string \<Rightarrow> (string \<times> string) list" where
  "build_original_index fs root variants_dir =
     map (\<lambda>(dirpath, fn). (join (relpath dirpath root) fn, join dirpath fn))
       (filter (\<lambda>(dirpath, fn).
            \<not> (relpath dirpath root = variants_dir \<or> startswith (relpath dirpath root) (variants_dir @ ''/'')))
          (walk_files fs root))"

text \<open>\<open>by_base\<close>: for a base name, the keys of the index with that base name.\<close>

definition by_base :: "(string \<times> string) list \<Rightarrow> string \<Rightarrow> string list" where
  "by_base idx b = filter (\<lambda>k. basename k = b) (map fst idx)"

text \<open>\<open>iter_files(root, under=variants_dir)\<close>.\<close>

definition iter_files :: "filesystem \<Rightarrow> string \<Rightarrow> string \<Rightarrow> string list" where
  "iter_files fs root sub =
     (if \<not> os_path_isdir fs (join root sub) then []
      else map (\<lambda>(dirpath, fn). join dirpath fn) (walk_files fs (join root sub)))"

text \<open>
  \<open>SXXEXX_PREFIX = ^(?P<show>.+) - S(?P<s>\d{2})E(?P<e>\d{1,3}) - \<close>, applied with \<open>match\<close>.
  \<open>sxxexx_prefix_tail\<close> matches what follows \<open>show\<close>; the greedy \<open>show\<close> is tried from the
  longest on and holds no line feed.  The result is \<open>(show, s, e)\<close>.
\<close>

definition sxxexx_prefix_tail :: "string \<Rightarrow> (string \<times> string) option" where
  "sxxexx_prefix_tail r =
     (if \<not> prefix '' - S'' r then None else
      let r1 = drop 4 r; s = take 2 r1; r2 = drop 2 r1 in
      if length s \<noteq> 2 \<or> \<not> list_all is_digit s \<or> \<not> prefix ''E'' r2 then None else
      let r3 = drop 1 r2; e = takeWhile is_digit r3; r4 = dropWhile is_digit r3 in
      if e = [] \<or> 3 < length e \<or> \<not> prefix '' - '' r4 then None else Some (s, e))"

definition SXXEXX_PREFIX_match :: "string \<Rightarrow> (string \<times> string \<times> string) option" where
  "SXXEXX_PREFIX_match b =
     first_some
       (\<lambda>i. case sxxexx_prefix_tail (drop i b) of None \<Rightarrow> None | Some (s, e) \<Rightarrow> Some (take i b, s, e))
       (rev [1 ..< Suc (length (takeWhile (\<lambda>c. c \<noteq> CHR 0x0A) b))])"

text \<open>The table holds normal paths: a directory is looked up without a final slash.\<close>

definition no_final_slash :: "string \<Rightarrow> string" where
  "no_final_slash p = (if 1 < length p \<and> endswith p ''/'' then butlast p else p)"

text \<open>
  The three steps of the loop body of \<open>plan_promotions\<close> for a variant \<open>f\<close>.
  \<open>exact_original\<close> is \<open>idx.get(candidate_rel)\<close>; \<open>structured_candidates\<close> is \<open>cands\<close> of the
  second step, or \<open>None\<close> when the step is not entered; \<open>basename_candidates\<close> is \<open>cands\<close>
  of the third step.
\<close>

definition rel_inside_of :: "string \<Rightarrow> string \<Rightarrow> string \<Rightarrow> string" where
  "rel_inside_of root variants_dir f = drop (length variants_dir + 1) (relpath f root)"

definition exact_original :: "(string \<times> string) list \<Rightarrow> string \<Rightarrow> string \<Rightarrow> string \<Rightarrow> string option" where
  "exact_original idx root variants_dir f =
     (let rel_inside = rel_inside_of root variants_dir f;
          candidate_rel = take (length rel_inside - length SUFFIX) rel_inside @ ''.mp4''
      in map_of idx candidate_rel)"

definition dir_full_of :: "string \<Rightarrow> string \<Rightarrow> string \<Rightarrow> string" where
  "dir_full_of root variants_dir f = join root (dirname (rel_inside_of root variants_dir f))"

definition structured_candidates :: "filesystem \<Rightarrow> string \<Rightarrow> string \<Rightarrow> string \<Rightarrow> string list option" where
  "structured_candidates fs root variants_dir f =
     (case SXXEXX_PREFIX_match (basename f) of
        None \<Rightarrow> None
      | Some (show, s, e) \<Rightarrow>
          let dir_full = dir_full_of root variants_dir f in
          if \<not> os_path_isdir fs (no_final_slash dir_full) then None
          else let pre = show @ '' - S'' @ s @ ''E'' @ fmt02 (int_of_digits e) @ '' - '' in
               Some (filter (\<lambda>fn. endswith fn ''.mp4'' \<and> \<not> endswith fn SUFFIX \<and> startswith fn pre)
                       (listdir fs dir_full)))"

definition basename_candidates :: "(string \<times> string) list \<Rightarrow> string \<Rightarrow> string list" where
  "basename_candidates idx f =
     by_base idx (take (length (basename f) - length SUFFIX) (basename f) @ ''.mp4'')"

text \<open>
  The outcome of the loop body: \<open>Found\<close> when \<open>original\<close> is set and a plan item follows,
  \<open>Ambiguous\<close> for the problem \<open>multiple originals match variant\<close> (with \<open>matches\<close>), and
  \<open>NotFound\<close> for the problem \<open>no matching original for variant\<close>.
\<close>

datatype match_outcome = Found string | Ambiguous "string list" | NotFound

definition match_variant ::
  "filesystem \<Rightarrow> (string \<times> string) list \<Rightarrow> string \<Rightarrow> string \<Rightarrow> bool \<Rightarrow> string \<Rightarrow> match_outcome" where
  "match_variant fs idx root variants_dir allow_basename_fallback f =
     (case exact_original idx root variants_dir f of
        Some orig \<Rightarrow> Found orig
      | None \<Rightarrow>
          (case structured_candidates fs root variants_dir f of
             Some [c] \<Rightarrow> Found (join (dir_full_of root variants_dir f) c)
           | Some (c # c' # cs) \<Rightarrow> Ambiguous (c # c' # cs)
           | _ \<Rightarrow>
               if allow_basename_fallback
               then (case basename_candidates idx f of
                       [k] \<Rightarrow> (case map_of idx k of Some orig \<Rightarrow> Found orig | None \<Rightarrow> NotFound)
                     | _ \<Rightarrow> NotFound)
               else NotFound))"

datatype problem = MultipleOriginals string string "string list" | NoMatchingOriginal string

definition plan_promotions ::
  "filesystem \<Rightarrow> string \<Rightarrow> string \<Rightarrow> string \<Rightarrow> bool \<Rightarrow> plan_item list \<times> problem list" where
  "plan_promotions fs root variants_dir backup_subdir allow_basename_fallback =
     (let idx = build_original_index fs root variants_dir;
          results = map (\<lambda>f. (f, match_variant fs idx root variants_dir allow_basename_fallback f))
                      (filter (\<lambda>f. endswith f SUFFIX) (iter_files fs root variants_dir))
      in (List.map_filter (\<lambda>(f, r). case r of
              Found orig \<Rightarrow>
                Some \<lparr>variant = f, original = orig,
                      backup_original = join (join (join root variants_dir) backup_subdir) (relpath orig root)\<rparr>
            | _ \<Rightarrow> None) results,
          List.map_filter (\<lambda>(f, r). case r of
              Ambiguous cands \<Rightarrow> Some (MultipleOriginals f (dir_full_of root variants_dir f) cands)
            | NotFound \<Rightarrow> Some (NoMatchingOriginal f)
            | Found _ \<Rightarrow> None) results))"

text \<open>
  \<open>main\<close> for an absolute, normal \<open>--root\<close>: the plan, the problems, the lines of the
  apply loop, the exception that ends the run (\<open>SystemExit(2)\<close> after errors), and the
  file system.
\<close>

definition promote_main ::
  "filesystem \<Rightarrow> string \<Rightarrow> string \<Rightarrow> string \<Rightarrow> bool \<Rightarrow> bool \<Rightarrow> bool \<Rightarrow>
     plan_item list \<times> problem list \<times> outcome list \<times> error option \<times> filesystem" where
  "promote_main fs root variants_dir backup_subdir no_basename_fallback delete_originals ap =
     (case plan_promotions fs root variants_dir backup_subdir (\<not> no_basename_fallback) of
        (plan, problems) \<Rightarrow>
          if \<not> ap then (plan, problems, [], None, fs)
          else (case promote_loop delete_originals plan fs of
                  (outs, errors, r, fs') \<Rightarrow>
                    (plan, problems, outs,
                     (if r = None \<and> 0 < errors then Some (SystemExit ''2'') else r), fs')))"

definition promote_structured_fs :: filesystem where
  "promote_structured_fs =
     [(''/'', Dir), (''/r'', Dir), (''/r/Cat'', Dir), (''/r/Cat/Coll'', Dir),
      (''/r/Cat/Coll/Cat - S02E05 - Y.mp4'', File 1),
      (''/r/_variants'', Dir), (''/r/_variants/Cat'', Dir), (''/r/_variants/Cat/Coll'', Dir),
      (''/r/_variants/Cat/Coll/Cat - S02E05 - X [99].plex-appletv.mp4'', File 2)]"

definition promote_two_basenames_fs :: filesystem where
  "promote_two_basenames_fs =
     [(''/'', Dir), (''/r'', Dir), (''/r/A'', Dir), (''/r/B'', Dir),
      (''/r/A/clip.mp4'', File 1), (''/r/B/clip.mp4'', File 2),
      (''/r/_variants'', Dir), (''/r/_variants/clip.plex-appletv.mp4'', File 3)]"

definition reorg_two_candidates_fs :: filesystem where
  "reorg_two_candidates_fs =
     [(''/'', Dir), (''/r'', Dir), (''/r/C'', Dir), (''/r/C/abc-720p.mp4'', File 1), (''/r/C/abc-1080p.mp4'', File 2)]"

text \<open>
  Claim C2, as amended.  In \<open>plan_promotions\<close> a variant is matched (\<open>Found\<close>) only by the
  exact relative path, by the one and only non-variant file of the directory that carries
  the expected prefix, or, with the fallback enabled, by the one and only index key with
  the expected base name.  Two or more files with the prefix give \<open>Ambiguous\<close> with all of
  them listed; two or more keys with the base name give \<open>NotFound\<close>.  In
  \<open>find_source_file\<close> a file found by prefix is the first listed name that qualifies.
\<close>

theorem match_variant_found_only_when_unique:
  "(match_variant fs idx root variants_dir allow f = Found p \<longrightarrow>
      exact_original idx root variants_dir f = Some p \<or>
      (\<exists>c. structured_candidates fs root variants_dir f = Some [c] \<and>
           p = join (dir_full_of root variants_dir f) c) \<or>
      (allow \<and> (\<exists>k. basename_candidates idx f = [k] \<and> map_of idx k = Some p))) \<and>
   (exact_original idx root variants_dir f = None \<and>
    structured_candidates fs root variants_dir f = Some cands \<and> 2 \<le> length cands \<longrightarrow>
      match_variant fs idx root variants_dir allow f = Ambiguous cands) \<and>
   (exact_original idx root variants_dir f = None \<and>
    (structured_candidates fs root variants_dir f = None \<or>
     structured_candidates fs root variants_dir f = Some []) \<and>
    2 \<le> length (basename_candidates idx f) \<longrightarrow>
      match_variant fs idx root variants_dir allow f = NotFound) \<and>
   (\<not> os_path_exists fs (join (join root cdir) (permalink_to_base pl @ ''.mp4'')) \<and>
    find_source_file fs root cdir pl True = Some src \<longrightarrow>
      (\<exists>before fn after.
          listdir fs (join root cdir) = before @ fn # after \<and> src = join (join root cdir) fn \<and>
          endswith fn ''.mp4'' \<and> startswith fn (permalink_to_base pl) \<and> \<not> contains fn ''.plex-appletv'' \<and>
          (\<forall>x \<in> set before.
              \<not> (endswith x ''.mp4'' \<and> startswith x (permalink_to_base pl) \<and> \<not> contains x ''.plex-appletv''))))"
proof (intro conjI impI)
  assume "match_variant fs idx root variants_dir allow f = Found p"
  then show "exact_original idx root variants_dir f = Some p \<or>
      (\<exists>c. structured_candidates fs root variants_dir f = Some [c] \<and>
           p = join (dir_full_of root variants_dir f) c) \<or>
      (allow \<and> (\<exists>k. basename_candidates idx f = [k] \<and> map_of idx k = Some p))"
    by (auto simp: match_variant_def split: option.splits list.splits if_splits)
next
  assume "exact_original idx root variants_dir f = None \<and>
    structured_candidates fs root variants_dir f = Some cands \<and> 2 \<le> length cands"
  then show "match_variant fs idx root variants_dir allow f = Ambiguous cands"
    by (auto simp: match_variant_def split: option.splits list.splits)
next
  assume "exact_original idx root variants_dir f = None \<and>
    (structured_candidates fs root variants_dir f = None \<or>
     structured_candidates fs root variants_dir f = Some []) \<and>
    2 \<le> length (basename_candidates idx f)"
  then show "match_variant fs idx root variants_dir allow f = NotFound"
    by (auto simp: match_variant_def split: option.splits list.splits)
next
  let ?ok = "\<lambda>fn. endswith fn ''.mp4'' \<and> startswith fn (permalink_to_base pl) \<and>
                  \<not> (True \<and> contains fn ''.plex-appletv'')"
  assume a: "\<not> os_path_exists fs (join (join root cdir) (permalink_to_base pl @ ''.mp4'')) \<and>
    find_source_file fs root cdir pl True = Some src"
  then obtain fn rest where flt: "filter ?ok (listdir fs (join root cdir)) = fn # rest"
    and src: "src = join (join root cdir) fn"
    by (auto simp: find_source_file_def Let_def split: if_splits list.splits)
  from flt obtain us vs where "listdir fs (join root cdir) = us @ fn # vs" "\<forall>u \<in> set us. \<not> ?ok u" "?ok fn"
    unfolding filter_eq_Cons_iff by blast
  with src show "\<exists>before fn after.
          listdir fs (join root cdir) = before @ fn # after \<and> src = join (join root cdir) fn \<and>
          endswith fn ''.mp4'' \<and> startswith fn (permalink_to_base pl) \<and> \<not> contains fn ''.plex-appletv'' \<and>
          (\<forall>x \<in> set before.
              \<not> (endswith x ''.mp4'' \<and> startswith x (permalink_to_base pl) \<and> \<not> contains x ''.plex-appletv''))"
    by (intro exI [of _ us] exI [of _ fn] exI [of _ vs]) simp
qed

lemma promote_structured_fs_index:
  "build_original_index promote_structured_fs ''/r'' ''_variants'' =
     [(''Cat/Coll/Cat - S02E05 - Y.mp4'', ''/r/Cat/Coll/Cat - S02E05 - Y.mp4'')]"
  by code_simp

theorem match_variant_found_only_when_unique_witness:
  "match_variant promote_structured_fs (build_original_index promote_structured_fs ''/r'' ''_variants'')
      ''/r'' ''_variants'' True ''/r/_variants/Cat/Coll/Cat - S02E05 - X [99].plex-appletv.mp4''
     = Found ''/r/Cat/Coll/Cat - S02E05 - Y.mp4'' \<and>
   exact_original (build_original_index promote_structured_fs ''/r'' ''_variants'') ''/r'' ''_variants''
      ''/r/_variants/Cat/Coll/Cat - S02E05 - X [99].plex-appletv.mp4'' = None \<and>
   (\<exists>c. structured_candidates promote_structured_fs ''/r'' ''_variants''
          ''/r/_variants/Cat/Coll/Cat - S02E05 - X [99].plex-appletv.mp4'' = Some [c] \<and>
        ''/r/Cat/Coll/Cat - S02E05 - Y.mp4'' =
          join (dir_full_of ''/r'' ''_variants''
                  ''/r/_variants/Cat/Coll/Cat - S02E05 - X [99].plex-appletv.mp4'') c)"
proof -
  let ?idx = "build_original_index promote_structured_fs ''/r'' ''_variants''"
  let ?f = "''/r/_variants/Cat/Coll/Cat - S02E05 - X [99].plex-appletv.mp4''"
  have m: "match_variant promote_structured_fs ?idx ''/r'' ''_variants'' True ?f
     = Found ''/r/Cat/Coll/Cat - S02E05 - Y.mp4''"
    unfolding promote_structured_fs_index by code_simp
  have e: "exact_original ?idx ''/r'' ''_variants'' ?f = None"
    unfolding promote_structured_fs_index by code_simp
  have b: "basename_candidates ?idx ?f = []"
    unfolding promote_structured_fs_index by code_simp
  from match_variant_found_only_when_unique
    [of promote_structured_fs ?idx "''/r''" "''_variants''" True ?f "''/r/Cat/Coll/Cat - S02E05 - Y.mp4''"] m e b
  have "\<exists>c. structured_candidates promote_structured_fs ''/r'' ''_variants'' ?f = Some [c] \<and>
      ''/r/Cat/Coll/Cat - S02E05 - Y.mp4'' = join (dir_full_of ''/r'' ''_variants'' ?f) c"
    by auto
  with m e show ?thesis
    by blast
qed

text \<open>
  Claim C2 as stated fails.  With the fallback enabled and two originals named
  \<open>clip.mp4\<close> in the index, \<open>plan_promotions\<close> reports \<open>no matching original\<close>: the two
  candidates are not listed.  And \<open>find_source_file\<close>, with two files that start with the
  base, returns the one listed first.
\<close>

theorem basename_fallback_reports_not_found:
  "basename_candidates (build_original_index promote_two_basenames_fs ''/r'' ''_variants'')
      ''/r/_variants/clip.plex-appletv.mp4'' = [''A/clip.mp4'', ''B/clip.mp4''] \<and>
   plan_promotions promote_two_basenames_fs ''/r'' ''_variants'' ''_replaced_originals'' True
     = ([], [NoMatchingOriginal ''/r/_variants/clip.plex-appletv.mp4'']) \<and>
   find_source_file reorg_two_candidates_fs ''/r'' ''C'' ''abc'' True = Some ''/r/C/abc-720p.mp4''"
  by code_simp

section \<open>\<open>organize_uscreen_tree_as_show.py\<close>\<close>

record season =
  season_category :: string
  season_collection :: string
  dir_path :: string

text \<open>The video files of a directory, unsorted: the list \<open>vids\<close> of \<open>list_leaf_seasons\<close>.\<close>

definition videos_in :: "filesystem \<Rightarrow> string \<Rightarrow> string list" where
  "videos_in fs d = filter (\<lambda>p. os_path_isfile fs p \<and> is_video p) (map (join d) (listdir fs d))"

definition list_leaf_seasons :: "filesystem \<Rightarrow> string \<Rightarrow> season list" where
  "list_leaf_seasons fs src_root =
     concat (map (\<lambda>cat.
        if \<not> os_path_isdir fs (join src_root cat) then []
        else concat (map (\<lambda>coll.
               if \<not> os_path_isdir fs (join (join src_root cat) coll) then []
               else if videos_in fs (join (join src_root cat) coll) = [] then []
               else [\<lparr>season_category = cat, season_collection = coll,
                      dir_path = join (join src_root cat) coll\<rparr>])
             (sort (listdir fs (join src_root cat)))))
       (sort (listdir fs src_root)))"

text \<open>\<open>title_from_filename\<close> of this script.\<close>

definition uscreen_title_from_filename :: "string \<Rightarrow> string" where
  "uscreen_title_from_filename base =
     (let name = fst (splitext base);
          name = BRACKET_ID_RE_sub name;
          name = (case LEADING_NUM_RE_match name of Some (ep, rest) \<Rightarrow> rest | None \<Rightarrow> name);
          name = strip_chars (\<lambda>c. c \<in> set '' -_.'') name;
          name = map (\<lambda>c. if c = CHR ''_'' then CHR '' '' else c) name;
          name = strip (ws_sub name)
      in if name = [] then base else name)"

datatype mode = Hardlink | Copy | Move

definition link_copy_move :: "filesystem \<Rightarrow> string \<Rightarrow> string \<Rightarrow> mode \<Rightarrow> error option \<times> filesystem" where
  "link_copy_move fs src dst m =
     (case os_makedirs fs (dirname dst) of
        Inl e \<Rightarrow> (Some e, fs)
      | Inr fs1 \<Rightarrow>
          (case (case m of
                   Hardlink \<Rightarrow> os_link fs1 src dst
                 | Copy \<Rightarrow> shutil_copy2 fs1 src dst
                 | Move \<Rightarrow> os_rename fs1 src dst) of
             Inl e \<Rightarrow> (Some e, fs1)
           | Inr fs2 \<Rightarrow> (None, fs2)))"

text \<open>A line of the report: the action (\<open>PLAN\<close> or \<open>LINK\<close>), the season index, source, destination.\<close>

datatype op_line = Op string nat string string

text \<open>
  The loop over the files of one season.  The episode numbers are those of
  \<open>uscreen_episode_numbers\<close>; the destination is made unique against the file system as
  the loop has left it.  The result: the lines, the exception raised, if any, and the
  file system.
\<close>

fun season_loop ::
  "bool \<Rightarrow> mode \<Rightarrow> string \<Rightarrow> string \<Rightarrow> nat \<Rightarrow> (string \<times> nat) list \<Rightarrow> filesystem \<Rightarrow>
     op_line list \<times> error option \<times> filesystem" where
  "season_loop ap m show season_dir sidx [] fs = ([], None, fs)"
| "season_loop ap m show season_dir sidx ((src, ep) # rest) fs =
     (let base = basename src;
          title = safe_component (uscreen_title_from_filename base);
          ext = snd (splitext base);
          dst_name = safe_component (show @ '' - S'' @ fmt02 sidx @ ''E'' @ ep_tag ep @ '' - '' @ title @ ext);
          dst = unique_path fs (join season_dir dst_name)
      in if ap
         then (case link_copy_move fs src dst m of
                 (Some e, fs1) \<Rightarrow> ([], Some e, fs1)
               | (None, fs1) \<Rightarrow>
                   (case season_loop ap m show season_dir sidx rest fs1 of
                      (ls, r, fs2) \<Rightarrow> (Op ''LINK'' sidx src dst # ls, r, fs2)))
         else (case season_loop ap m show season_dir sidx rest fs of
                 (ls, r, fs2) \<Rightarrow> (Op ''PLAN'' sidx src dst # ls, r, fs2)))"

fun seasons_loop ::
  "bool \<Rightarrow> mode \<Rightarrow> string \<Rightarrow> string \<Rightarrow> nat \<Rightarrow> season list \<Rightarrow> filesystem \<Rightarrow>
     op_line list \<times> error option \<times> filesystem" where
  "seasons_loop ap m dst_root show sidx [] fs = ([], None, fs)"
| "seasons_loop ap m dst_root show sidx (s # rest) fs =
     (let season_name = safe_component (''Season '' @ fmt02 sidx @ '' - '' @ season_category s @ '' - ''
                           @ season_collection s);
          season_dir = join (join dst_root show) season_name;
          files = season_files fs (dir_path s)
      in case season_loop ap m show season_dir sidx (zip files (uscreen_episode_numbers files)) fs of
           (ls, Some e, fs1) \<Rightarrow> (ls, Some e, fs1)
         | (ls, None, fs1) \<Rightarrow>
             (case seasons_loop ap m dst_root show (sidx + 1) rest fs1 of
                (ls', r, fs2) \<Rightarrow> (ls @ ls', r, fs2)))"

text \<open>Writing the report: \<open>open(report_path, "w")\<close> creates or replaces a regular file.\<close>

definition write_file :: "filesystem \<Rightarrow> string \<Rightarrow> error + filesystem" where
  "write_file fs p =
     (if os_path_isdir fs p then Inl (IsADirectoryError p)
      else if \<not> os_path_isdir fs (dirname p) then Inl (FileNotFoundError p)
      else Inr ((p, File 0) # filter (\<lambda>(q, _). q \<noteq> p) fs))"

text \<open>
  \<open>main\<close> for absolute, normal \<open>--src\<close> and \<open>--dst\<close>: the operation lines (after the header),
  the exception that ended the run, if any, and the file system.
\<close>

definition uscreen_main ::
  "filesystem \<Rightarrow> string \<Rightarrow> string \<Rightarrow> string \<Rightarrow> mode \<Rightarrow> bool \<Rightarrow> string \<Rightarrow>
     op_line list \<times> error option \<times> filesystem" where
  "uscreen_main fs src_root dst_root show0 m ap report =
     (let show = safe_component show0 in
      case os_listdir fs src_root of
        Inl e \<Rightarrow> ([], Some e, fs)
      | Inr names \<Rightarrow>
          (case seasons_loop ap m dst_root show 1 (list_leaf_seasons fs src_root) fs of
             (ls, Some e, fs1) \<Rightarrow> (ls, Some e, fs1)
           | (ls, None, fs1) \<Rightarrow>
               if \<not> ap then (ls, None, fs1)
               else (case os_makedirs fs1 dst_root of
                       Inl e \<Rightarrow> (ls, Some e, fs1)
                     | Inr fs2 \<Rightarrow>
                         (case write_file fs2 (join dst_root report) of
                            Inl e \<Rightarrow> (ls, Some e, fs2)
                          | Inr fs3 \<Rightarrow> (ls, None, fs3)))))"

definition uscreen_example_fs :: filesystem where
  "uscreen_example_fs =
     [(''/'', Dir), (''/s'', Dir), (''/s/Content'', Dir), (''/s/Content/Basics 1'', Dir),
      (''/s/Content/Basics 1/01 - Basics 1 - Sugar Push [1516845].mp4'', File 1), (''/d'', Dir)]"

text \<open>A name: a non-empty path component.\<close>

definition is_name :: "string \<Rightarrow> bool" where
  "is_name n = (n \<noteq> [] \<and> CHR ''/'' \<notin> set n)"

text \<open>The video files directly in directory \<open>d\<close>.\<close>

definition vfiles :: "filesystem \<Rightarrow> string \<Rightarrow> string set" where
  "vfiles fs d = {p. \<exists>n. is_name n \<and> p = join d n \<and> os_path_isfile fs p \<and> is_video p}"

text \<open>A path directly in a collection directory of the source tree.\<close>

definition in_collection :: "string \<Rightarrow> string \<Rightarrow> bool" where
  "in_collection src_root p =
     (\<exists>cat coll n. is_name cat \<and> is_name coll \<and> is_name n \<and> p = join (join (join src_root cat) coll) n)"

definition dir_prefix :: "string \<Rightarrow> string" where
  "dir_prefix d = (if d = [] \<or> endswith d ''/'' then d else d @ ''/'')"

lemma join_name: "is_name n \<Longrightarrow> join d n = dir_prefix d @ n"
  by (cases n) (auto simp: join_def dir_prefix_def is_name_def startswith_def)

lemma child_name_alt:
  "child_name d p =
     (if prefix (dir_prefix d) p \<and> drop (length (dir_prefix d)) p \<noteq> [] \<and>
         CHR ''/'' \<notin> set (drop (length (dir_prefix d)) p)
      then Some (drop (length (dir_prefix d)) p) else None)"
proof -
  have pre: "butlast (join d ''x'') = dir_prefix d"
    by (simp add: join_def dir_prefix_def startswith_def butlast_append)
  show ?thesis
    by (simp only: child_name_def Let_def pre)
qed

lemma child_name_Some_iff: "child_name d p = Some n \<longleftrightarrow> is_name n \<and> p = join d n"
proof
  assume "child_name d p = Some n"
  then have "prefix (dir_prefix d) p" "n = drop (length (dir_prefix d)) p" "n \<noteq> []" "CHR ''/'' \<notin> set n"
    by (auto simp: child_name_alt split: if_splits)
  then show "is_name n \<and> p = join d n"
    by (auto simp: is_name_def join_name prefix_def)
next
  assume "is_name n \<and> p = join d n"
  then show "child_name d p = Some n"
    by (auto simp: child_name_alt join_name is_name_def)
qed

lemma set_listdir: "set (listdir fs d) = {n. is_name n \<and> map_of fs (join d n) \<noteq> None}"
proof -
  have "set (listdir fs d) = {n. \<exists>p \<in> fst ` set fs. child_name d p = Some n}"
    by (force simp: listdir_def List.map_filter_def image_iff)
  also have "\<dots> = {n. is_name n \<and> join d n \<in> fst ` set fs}"
    by (auto simp: child_name_Some_iff)
  also have "\<dots> = {n. is_name n \<and> map_of fs (join d n) \<noteq> None}"
    by (simp add: map_of_eq_None_iff)
  finally show ?thesis .
qed

lemma distinct_listdir: "distinct (listdir fs d)"
  by (simp add: listdir_def)

lemma isfile_in_table: "os_path_isfile fs p \<Longrightarrow> map_of fs p \<noteq> None"
  by (auto simp: os_path_isfile_def split: option.splits)

lemma set_videos_in: "set (videos_in fs d) = vfiles fs d"
  by (auto simp: videos_in_def vfiles_def set_listdir dest: isfile_in_table)

lemma set_season_files: "set (season_files fs d) = vfiles fs d"
  using set_videos_in [of fs d] by (simp add: season_files_def videos_in_def)

lemma inj_on_join_names: "inj_on (join d) {n. is_name n}"
  by (auto simp: inj_on_def join_name)

lemma distinct_season_files: "distinct (season_files fs d)"
proof -
  have "inj_on (join d) (set (listdir fs d))"
    by (rule inj_on_subset [OF inj_on_join_names]) (auto simp: set_listdir)
  then have "distinct (map (join d) (listdir fs d))"
    by (simp add: distinct_map distinct_listdir)
  then show ?thesis
    by (simp add: season_files_def)
qed

lemma season_dir_path:
  "s \<in> set (list_leaf_seasons fs src_root) \<Longrightarrow>
     \<exists>cat coll. is_name cat \<and> is_name coll \<and> dir_path s = join (join src_root cat) coll"
  by (fastforce simp: list_leaf_seasons_def set_listdir split: if_splits)

lemma list_leaf_seasons_empty:
  assumes "\<And>cat coll. is_name cat \<Longrightarrow> is_name coll \<Longrightarrow> vfiles fs (join (join src_root cat) coll) = {}"
  shows "list_leaf_seasons fs src_root = []"
proof -
  have "videos_in fs (join (join src_root cat) coll) = []" if "is_name cat" "is_name coll" for cat coll
    using assms [OF that] set_videos_in [of fs "join (join src_root cat) coll"] by simp
  then show ?thesis
    by (auto simp: list_leaf_seasons_def set_listdir)
qed

lemma list_leaf_seasons_covers:
  assumes "p \<in> vfiles fs (join (join src_root cat) coll)" "is_name cat" "is_name coll"
    and "os_path_isdir fs (join src_root cat)" "os_path_isdir fs (join (join src_root cat) coll)"
  shows "\<exists>s \<in> set (list_leaf_seasons fs src_root). dir_path s = join (join src_root cat) coll"
proof -
  have v: "videos_in fs (join (join src_root cat) coll) \<noteq> []"
    using assms(1) set_videos_in [of fs "join (join src_root cat) coll"] by auto
  have c1: "cat \<in> set (listdir fs src_root)"
    using assms(2,4) by (simp add: set_listdir os_path_isdir_def)
  have c2: "coll \<in> set (listdir fs (join src_root cat))"
    using assms(3,5) by (simp add: set_listdir os_path_isdir_def)
  let ?s = "\<lparr>season_category = cat, season_collection = coll, dir_path = join (join src_root cat) coll\<rparr>"
  have "?s \<in> set (list_leaf_seasons fs src_root)"
    unfolding list_leaf_seasons_def using c1 c2 v assms(4,5)
    by (auto intro!: bexI [of _ cat] bexI [of _ coll])
  then show ?thesis
    by (intro bexI [of _ ?s]) simp_all
qed

fun op_dst :: "op_line \<Rightarrow> string" where
  "op_dst (Op action sidx src dst) = dst"

lemma os_makedirs_isfile:
  assumes "os_makedirs fs d = Inr fs1"
  shows "os_path_isfile fs1 p \<longleftrightarrow> os_path_isfile fs p"
proof (cases "map_of fs p")
  case None
  then have "map_of fs1 p = None \<or> map_of fs1 p = Some Dir"
    using os_makedirs_new [OF assms None] by blast
  with None show ?thesis
    by (auto simp: os_path_isfile_def)
next
  case (Some n)
  then have "map_of fs1 p = Some n"
    using os_makedirs_keeps [OF assms] by simp
  with Some show ?thesis
    by (simp add: os_path_isfile_def)
qed

lemma move_isfile:
  assumes mv: "link_copy_move fs src dst Move = (None, fs')" and f: "os_path_isfile fs src" and ne: "src \<noteq> dst"
  shows "os_path_isfile fs' p \<longleftrightarrow> p = dst \<or> (p \<noteq> src \<and> os_path_isfile fs p)"
proof -
  from mv obtain fs1 where mk: "os_makedirs fs (dirname dst) = Inr fs1" and rn: "os_rename fs1 src dst = Inr fs'"
    by (auto simp: link_copy_move_def split: sum.splits)
  from f os_makedirs_isfile [OF mk, of src] obtain c where c: "map_of fs1 src = Some (File c)"
    by (auto simp: os_path_isfile_def split: option.splits node.splits)
  note r = os_rename_file [OF rn c ne]
  show ?thesis
  proof (cases "p = dst")
    case True
    with r(1) show ?thesis by (simp add: os_path_isfile_def)
  next
    case False
    note nd = this
    show ?thesis
    proof (cases "p = src")
      case True
      with r(2) nd show ?thesis by (simp add: os_path_isfile_def)
    next
      case False
      from r(3) [OF False nd] have "os_path_isfile fs' p \<longleftrightarrow> os_path_isfile fs1 p"
        by (simp add: os_path_isfile_def)
      with os_makedirs_isfile [OF mk, of p] False nd show ?thesis
        by simp
    qed
  qed
qed

lemma season_loop_move:
  assumes "season_loop True Move show sd sidx items fs = (ls, None, fs')"
    and "\<forall>it \<in> set items. os_path_isfile fs (fst it)"
    and "distinct (map fst items)"
    and "\<forall>l \<in> set ls. op_dst l \<notin> fst ` set items"
  shows "os_path_isfile fs' p \<longrightarrow> p \<in> op_dst ` set ls \<or> (p \<notin> fst ` set items \<and> os_path_isfile fs p)"
  using assms
proof (induction items arbitrary: fs ls)
  case Nil
  then show ?case by simp
next
  case (Cons it rest)
  obtain src ep where it: "it = (src, ep)"
    by (cases it)
  define dst where "dst = unique_path fs (join sd (safe_component
      (show @ '' - S'' @ fmt02 sidx @ ''E'' @ ep_tag ep @ '' - '' @
       safe_component (uscreen_title_from_filename (basename src)) @ snd (splitext (basename src)))))"
  from Cons.prems(1) obtain fs1 ls2 where
    mv: "link_copy_move fs src dst Move = (None, fs1)"
    and rec: "season_loop True Move show sd sidx rest fs1 = (ls2, None, fs')"
    and ls: "ls = Op ''LINK'' sidx src dst # ls2"
    unfolding it dst_def
    by (auto simp: Let_def split: sum.splits prod.splits option.splits)
  from Cons.prems(2) it have fsrc: "os_path_isfile fs src"
    by simp
  from Cons.prems(4) ls it have ne: "src \<noteq> dst" and dnr: "dst \<notin> fst ` set rest"
    by auto
  note m = move_isfile [OF mv fsrc ne]
  have a: "\<forall>it \<in> set rest. os_path_isfile fs1 (fst it)"
  proof
    fix x assume x: "x \<in> set rest"
    with Cons.prems(2) have "os_path_isfile fs (fst x)" by simp
    moreover from x Cons.prems(3) it have "fst x \<noteq> src" by auto
    ultimately show "os_path_isfile fs1 (fst x)"
      using m [of "fst x"] by simp
  qed
  have b: "distinct (map fst rest)"
    using Cons.prems(3) by simp
  have c: "\<forall>l \<in> set ls2. op_dst l \<notin> fst ` set rest"
    using Cons.prems(4) ls by auto
  have ih: "os_path_isfile fs' p \<longrightarrow> p \<in> op_dst ` set ls2 \<or> (p \<notin> fst ` set rest \<and> os_path_isfile fs1 p)"
    using Cons.IH [OF rec a b c] .
  show ?case
  proof
    assume "os_path_isfile fs' p"
    with ih consider "p \<in> op_dst ` set ls2" | "p \<notin> fst ` set rest" "os_path_isfile fs1 p"
      by blast
    then show "p \<in> op_dst ` set ls \<or> (p \<notin> fst ` set (it # rest) \<and> os_path_isfile fs p)"
    proof cases
      case 1
      then show ?thesis by (simp add: ls)
    next
      case 2
      with m [of p] show ?thesis
        by (auto simp: ls it)
    qed
  qed
qed

lemma vfiles_in_collection:
  "is_name cat \<Longrightarrow> is_name coll \<Longrightarrow> p \<in> vfiles fs (join (join src_root cat) coll) \<Longrightarrow> in_collection src_root p"
  by (auto simp: vfiles_def in_collection_def)

lemma seasons_loop_move:
  assumes "seasons_loop True Move dst_root show sidx ss fs = (ls, None, fs')"
    and "\<forall>l \<in> set ls. \<not> in_collection src_root (op_dst l)"
    and "\<forall>s \<in> set ss. \<exists>cat coll. is_name cat \<and> is_name coll \<and> dir_path s = join (join src_root cat) coll"
  shows "(\<forall>p. os_path_isfile fs' p \<longrightarrow> p \<in> op_dst ` set ls \<or> os_path_isfile fs p) \<and>
         (\<forall>s \<in> set ss. vfiles fs' (dir_path s) = {})"
  using assms
proof (induction ss arbitrary: fs ls sidx)
  case Nil
  then show ?case by simp
next
  case (Cons s rest)
  let ?d = "dir_path s"
  let ?files = "season_files fs ?d"
  let ?items = "zip ?files (uscreen_episode_numbers ?files)"
  define sd where "sd = join (join dst_root show)
     (safe_component (''Season '' @ fmt02 sidx @ '' - '' @ season_category s @ '' - '' @ season_collection s))"
  from Cons.prems(1) obtain ls1 fs1 ls2 where
    one: "season_loop True Move show sd sidx ?items fs = (ls1, None, fs1)"
    and rec: "seasons_loop True Move dst_root show (sidx + 1) rest fs1 = (ls2, None, fs')"
    and ls: "ls = ls1 @ ls2"
    unfolding sd_def
    by (auto simp: Let_def split: prod.splits option.splits)
  from Cons.prems(3) obtain cat coll where cc: "is_name cat" "is_name coll" "?d = join (join src_root cat) coll"
    by auto
  have len: "length (uscreen_episode_numbers ?files) = length ?files"
    by (simp add: uscreen_episode_numbers_def episode_numbers_def number_loop_length)
  then have srcs: "map fst ?items = ?files"
    by simp
  then have srcset: "fst ` set ?items = vfiles fs ?d"
    using set_season_files [of fs ?d] by (metis set_map)
  have a: "\<forall>it \<in> set ?items. os_path_isfile fs (fst it)"
    using srcset by (auto simp: vfiles_def)
  have b: "distinct (map fst ?items)"
    unfolding srcs by (rule distinct_season_files)
  have c: "\<forall>l \<in> set ls1. op_dst l \<notin> fst ` set ?items"
  proof
    fix l assume "l \<in> set ls1"
    with Cons.prems(2) ls have "\<not> in_collection src_root (op_dst l)"
      by simp
    then show "op_dst l \<notin> fst ` set ?items"
      unfolding srcset using vfiles_in_collection [OF cc(1,2)] cc(3) by metis
  qed
  have d: "os_path_isfile fs1 p \<longrightarrow> p \<in> op_dst ` set ls1 \<or> (p \<notin> vfiles fs ?d \<and> os_path_isfile fs p)" for p
    using season_loop_move [OF one a b c, of p] unfolding srcset .
  have ih: "(\<forall>p. os_path_isfile fs' p \<longrightarrow> p \<in> op_dst ` set ls2 \<or> os_path_isfile fs1 p) \<and>
         (\<forall>s \<in> set rest. vfiles fs' (dir_path s) = {})"
    using Cons.IH [OF rec] Cons.prems(2,3) ls by simp
  have e1: "\<forall>p. os_path_isfile fs' p \<longrightarrow> p \<in> op_dst ` set ls \<or> os_path_isfile fs p"
    using ih d by (auto simp: ls)
  have e2: "vfiles fs' ?d = {}"
  proof (rule ccontr)
    assume "vfiles fs' ?d \<noteq> {}"
    then obtain p where p: "p \<in> vfiles fs' ?d"
      by blast
    then have inc: "in_collection src_root p"
      using vfiles_in_collection [OF cc(1,2)] cc(3) by metis
    then have nd: "p \<notin> op_dst ` set ls"
      using Cons.prems(2) by auto
    from p have f': "os_path_isfile fs' p"
      by (auto simp: vfiles_def)
    with ih nd ls have "os_path_isfile fs1 p"
      by auto
    with d [of p] nd ls have "p \<notin> vfiles fs ?d" "os_path_isfile fs p"
      by auto
    with p show False
      by (auto simp: vfiles_def)
  qed
  from e1 e2 ih show ?case
    by simp
qed

lemma name_slash_eq:
  assumes "CHR ''/'' \<notin> set a" "CHR ''/'' \<notin> set b" "a @ CHR ''/'' # x = b @ CHR ''/'' # y"
  shows "a = b \<and> x = y"
proof -
  have "takeWhile (\<lambda>c. c \<noteq> CHR ''/'') (a @ CHR ''/'' # x) = a"
    using assms(1) by (auto simp: takeWhile_tail)
  moreover have "takeWhile (\<lambda>c. c \<noteq> CHR ''/'') (b @ CHR ''/'' # y) = b"
    using assms(2) by (auto simp: takeWhile_tail)
  ultimately have "a = b"
    using assms(3) by simp
  with assms(3) show ?thesis
    by simp
qed

lemma dir_prefix_join: "is_name n \<Longrightarrow> dir_prefix (join d n) = dir_prefix d @ n @ ''/''"
proof -
  assume n: "is_name n"
  then have "join d n = dir_prefix d @ n" "n \<noteq> []" "last n \<noteq> CHR ''/''"
    by (auto simp: join_name is_name_def dest: last_in_set)
  then have "join d n \<noteq> []" "\<not> endswith (join d n) ''/''"
    by (auto simp: endswith_def suffix_def) (metis last_appendR last_snoc)
  then show ?thesis
    using \<open>join d n = dir_prefix d @ n\<close> by (simp add: dir_prefix_def)
qed

lemma join3: 
  "is_name cat \<Longrightarrow> is_name coll \<Longrightarrow> is_name n \<Longrightarrow>
     join (join (join d cat) coll) n = dir_prefix d @ cat @ ''/'' @ coll @ ''/'' @ n"
  by (subst join_name, assumption, subst dir_prefix_join, assumption, subst dir_prefix_join, assumption) simp

lemma join3_inject:
  assumes "is_name cat" "is_name coll" "is_name n" "is_name cat'" "is_name coll'" "is_name n'"
    and "join (join (join d cat) coll) n = join (join (join d cat') coll') n'"
  shows "cat = cat' \<and> coll = coll' \<and> n = n'"
proof -
  from assms have "cat @ CHR ''/'' # (coll @ CHR ''/'' # n) = cat' @ CHR ''/'' # (coll' @ CHR ''/'' # n')"
    by (simp add: join3)
  with assms(1,4) have "cat = cat'" "coll @ CHR ''/'' # n = coll' @ CHR ''/'' # n'"
    using name_slash_eq [of cat cat'] by (auto simp: is_name_def)
  with assms(2,5) show ?thesis
    using name_slash_eq [of coll coll'] by (auto simp: is_name_def)
qed

lemma in_collection_prefix: "in_collection src_root p \<Longrightarrow> prefix (dir_prefix src_root) p"
  by (auto simp: in_collection_def join3)

lemma write_file_isfile:
  "write_file fs q = Inr fs' \<Longrightarrow> os_path_isfile fs' p \<Longrightarrow> p = q \<or> os_path_isfile fs p"
proof -
  assume w: "write_file fs q = Inr fs'" and f: "os_path_isfile fs' p"
  from w have fs': "fs' = (q, File 0) # filter (\<lambda>(x, _). x \<noteq> q) fs"
    by (auto simp: write_file_def split: if_splits)
  have flt: "map_of (filter (\<lambda>(x, _). x \<noteq> q) fs) p = (if p \<noteq> q then map_of fs p else None)"
    by (induction fs) auto
  from f show ?thesis
    by (auto simp: fs' flt os_path_isfile_def split: if_splits)
qed

text \<open>
  Claim C3, as amended.  In \<open>organize_uscreen_tree_as_show.py\<close>, after a run in \<open>move\<close> mode
  with \<open>--apply\<close> that ended without exception, a second run over the same source tree has
  no operation at all, whatever its mode.  The hypotheses: a video file in a collection
  directory of the source tree has its category and collection directories in the table,
  and no destination of the first run (nor the report) lies directly in a collection
  directory of the source tree.
\<close>

theorem uscreen_move_rerun_plans_nothing:
  assumes run: "uscreen_main fs src_root dst_root show0 Move True report = (ops, None, fs1)"
    and tree: "\<forall>cat coll n. is_name cat \<and> is_name coll \<and> is_name n \<and>
         os_path_isfile fs (join (join (join src_root cat) coll) n) \<longrightarrow>
         os_path_isdir fs (join src_root cat) \<and> os_path_isdir fs (join (join src_root cat) coll)"
    and apart: "\<forall>l \<in> set ops. \<not> in_collection src_root (op_dst l)"
    and rep: "\<not> in_collection src_root (join dst_root report)"
  shows "fst (uscreen_main fs1 src_root dst_root show0 m ap report) = []"
proof -
  let ?show = "safe_component show0"
  from run obtain names fsa fsb where
    loop: "seasons_loop True Move dst_root ?show 1 (list_leaf_seasons fs src_root) fs = (ops, None, fsa)"
    and mk: "os_makedirs fsa dst_root = Inr fsb"
    and wr: "write_file fsb (join dst_root report) = Inr fs1"
    by (auto simp: uscreen_main_def Let_def split: sum.splits prod.splits option.splits)
  have shape: "\<forall>s \<in> set (list_leaf_seasons fs src_root).
      \<exists>cat coll. is_name cat \<and> is_name coll \<and> dir_path s = join (join src_root cat) coll"
    using season_dir_path by blast
  note inv = seasons_loop_move [OF loop apart shape]
  have empty: "vfiles fs1 (join (join src_root cat) coll) = {}" if cc: "is_name cat" "is_name coll" for cat coll
  proof (rule ccontr)
    let ?d = "join (join src_root cat) coll"
    assume "vfiles fs1 ?d \<noteq> {}"
    then obtain p n where p: "is_name n" "p = join ?d n" "os_path_isfile fs1 p" "is_video p"
      by (auto simp: vfiles_def)
    then have inc: "in_collection src_root p"
      using cc by (auto simp: in_collection_def)
    with rep have "p \<noteq> join dst_root report"
      by auto
    with write_file_isfile [OF wr p(3)] have "os_path_isfile fsb p"
      by simp
    then have fa: "os_path_isfile fsa p"
      using os_makedirs_isfile [OF mk] by simp
    from inc apart have "p \<notin> op_dst ` set ops"
      by auto
    with inv fa have f0: "os_path_isfile fs p"
      by blast
    with p have v0: "p \<in> vfiles fs ?d"
      by (auto simp: vfiles_def)
    from tree cc p f0 have "os_path_isdir fs (join src_root cat)" "os_path_isdir fs ?d"
      by blast+
    from list_leaf_seasons_covers [OF v0 cc this]
    obtain s where "s \<in> set (list_leaf_seasons fs src_root)" "dir_path s = ?d"
      by blast
    with inv have "vfiles fsa ?d = {}"
      by auto
    with p fa show False
      by (auto simp: vfiles_def)
  qed
  then have none: "list_leaf_seasons fs1 src_root = []"
    by (rule list_leaf_seasons_empty)
  show ?thesis
    by (auto simp: uscreen_main_def Let_def none split: sum.splits prod.splits option.splits)
qed

definition uscreen_small_fs :: filesystem where
  "uscreen_small_fs =
     [(''/'', Dir), (''/s'', Dir), (''/s/C'', Dir), (''/s/C/B'', Dir), (''/s/C/B/1 - a.mp4'', File 1), (''/d'', Dir)]"

lemma uscreen_small_move:
  "uscreen_main uscreen_small_fs ''/s'' ''/d'' ''G'' Move True ''r.tsv'' =
     ([Op ''LINK'' 1 ''/s/C/B/1 - a.mp4'' ''/d/G/Season 01 - C - B/G - S01E01 - a.mp4''], None,
      [(''/d/r.tsv'', File 0), (''/d/G/Season 01 - C - B/G - S01E01 - a.mp4'', File 1),
       (''/'', Dir), (''/s'', Dir), (''/s/C'', Dir), (''/s/C/B'', Dir), (''/d'', Dir),
       (''/d/G'', Dir), (''/d/G/Season 01 - C - B'', Dir)])"
  by code_simp

theorem uscreen_move_rerun_plans_nothing_witness:
  "uscreen_main uscreen_small_fs ''/s'' ''/d'' ''G'' Move True ''r.tsv'' =
     ([Op ''LINK'' 1 ''/s/C/B/1 - a.mp4'' ''/d/G/Season 01 - C - B/G - S01E01 - a.mp4''], None,
      [(''/d/r.tsv'', File 0), (''/d/G/Season 01 - C - B/G - S01E01 - a.mp4'', File 1),
       (''/'', Dir), (''/s'', Dir), (''/s/C'', Dir), (''/s/C/B'', Dir), (''/d'', Dir),
       (''/d/G'', Dir), (''/d/G/Season 01 - C - B'', Dir)]) \<and>
   fst (uscreen_main
      [(''/d/r.tsv'', File 0), (''/d/G/Season 01 - C - B/G - S01E01 - a.mp4'', File 1),
       (''/'', Dir), (''/s'', Dir), (''/s/C'', Dir), (''/s/C/B'', Dir), (''/d'', Dir),
       (''/d/G'', Dir), (''/d/G/Season 01 - C - B'', Dir)] ''/s'' ''/d'' ''G'' Move True ''r.tsv'') = []"
proof -
  have pre: "dir_prefix ''/s'' = ''/s/''"
    by code_simp
  have names: "is_name ''C''" "is_name ''B''" "is_name ''1 - a.mp4''"
    by (simp_all add: is_name_def)
  have j: "join (join (join ''/s'' ''C'') ''B'') ''1 - a.mp4'' = ''/s/C/B/1 - a.mp4''"
    by (simp add: join3 names pre)
  have tree: "\<forall>cat coll n. is_name cat \<and> is_name coll \<and> is_name n \<and>
         os_path_isfile uscreen_small_fs (join (join (join ''/s'' cat) coll) n) \<longrightarrow>
         os_path_isdir uscreen_small_fs (join ''/s'' cat) \<and>
         os_path_isdir uscreen_small_fs (join (join ''/s'' cat) coll)"
  proof (intro allI impI)
    fix cat coll n
    assume h: "is_name cat \<and> is_name coll \<and> is_name n \<and>
         os_path_isfile uscreen_small_fs (join (join (join ''/s'' cat) coll) n)"
    then have "join (join (join ''/s'' cat) coll) n = ''/s/C/B/1 - a.mp4''"
      by (auto simp: uscreen_small_fs_def os_path_isfile_def split: if_splits)
    with j have "join (join (join ''/s'' cat) coll) n = join (join (join ''/s'' ''C'') ''B'') ''1 - a.mp4''"
      by simp
    with h names have "cat = ''C'' \<and> coll = ''B''"
      using join3_inject [of cat coll n "''C''" "''B''" "''1 - a.mp4''" "''/s''"] by blast
    moreover have "os_path_isdir uscreen_small_fs (join ''/s'' ''C'') \<and>
         os_path_isdir uscreen_small_fs (join (join ''/s'' ''C'') ''B'')"
      by code_simp
    ultimately show "os_path_isdir uscreen_small_fs (join ''/s'' cat) \<and>
         os_path_isdir uscreen_small_fs (join (join ''/s'' cat) coll)"
      by simp
  qed
  have np: "\<not> prefix (dir_prefix ''/s'') ''/d/G/Season 01 - C - B/G - S01E01 - a.mp4''"
    "\<not> prefix (dir_prefix ''/s'') (join ''/d'' ''r.tsv'')"
    by code_simp+
  then have apart: "\<forall>l \<in> set [Op ''LINK'' 1 ''/s/C/B/1 - a.mp4'' ''/d/G/Season 01 - C - B/G - S01E01 - a.mp4''].
      \<not> in_collection ''/s'' (op_dst l)"
    and rep: "\<not> in_collection ''/s'' (join ''/d'' ''r.tsv'')"
    using in_collection_prefix by auto
  from uscreen_move_rerun_plans_nothing [OF uscreen_small_move tree apart rep, of Move True] uscreen_small_move
  show ?thesis
    by simp
qed

text \<open>
  Claim C3 as stated fails in the default mode: a hard link leaves the source where it
  is, so the second run plans the same file again, under a disambiguated name.
\<close>

theorem uscreen_hardlink_rerun_plans_again:
  "fst (uscreen_main uscreen_small_fs ''/s'' ''/d'' ''G'' Hardlink True ''r.tsv'') =
     [Op ''LINK'' 1 ''/s/C/B/1 - a.mp4'' ''/d/G/Season 01 - C - B/G - S01E01 - a.mp4''] \<and>
   fst (uscreen_main (snd (snd (uscreen_main uscreen_small_fs ''/s'' ''/d'' ''G'' Hardlink True ''r.tsv'')))
          ''/s'' ''/d'' ''G'' Hardlink True ''r.tsv'') =
     [Op ''LINK'' 1 ''/s/C/B/1 - a.mp4'' ''/d/G/Season 01 - C - B/G - S01E01 - a (2).mp4'']"
  by code_simp

end
